theory Spec2Isabelle
  imports Main "HOL-Library.Sublist"
begin

section \<open>The parse state and the values it carries\<close>

text \<open>
  The model follows \<^verbatim>\<open>src/index.js\<close>. JavaScript strings are modelled as
  \<^typ>\<open>string\<close>, one \<^typ>\<open>char\<close> per UTF-16 code unit, restricted to the code units
  0..255. Numbers that the code uses as offsets are \<^typ>\<open>int\<close>: nothing in the source
  keeps a caller from handing in a negative offset through \<^verbatim>\<open>setCurState\<close>.

  The field \<^verbatim>\<open>result\<close> is untyped in the source; \<open>jsval\<close> lists the shapes the
  library itself produces (\<^verbatim>\<open>null\<close>, \<^verbatim>\<open>undefined\<close>, a string, an array) and a number
  for client values.
\<close>

datatype jsval = Null | Undefined | Str string | Num int | Arr "jsval list"

record state =
  target :: string
  index :: int
  result :: jsval
  isError :: bool
  error :: "string option"
  errorChain :: "string list"
  lastMatchedToken :: "string option"
  lastMatchedParserIndex :: int
  lastMatchedTokenIndex :: int

text \<open>
  A parser wraps \<^verbatim>\<open>parseStateTransformFn\<close>. Calling it has three outcomes: it returns a
  state (\<open>Some (Inr s)\<close>), it stops without one (\<open>Some (Inl e)\<close>), or it never returns
  (\<open>None\<close>), which the \<^verbatim>\<open>while\<close> loops of \<^verbatim>\<open>many\<close>, \<^verbatim>\<open>manyOne\<close>, \<^verbatim>\<open>sepBy\<close> and
  \<^verbatim>\<open>sepByOne\<close> do on a body that keeps succeeding.

  \<open>TypeError\<close> is the exception of the host language, thrown by \<^verbatim>\<open>addSuggestion\<close> and by
  \<^verbatim>\<open>sequenceSepBy\<close>. \<open>NaNIndex\<close> is not an exception: it marks the one place where the
  code returns an object whose \<^verbatim>\<open>index\<close> is \<^verbatim>\<open>NaN\<close> (\<^verbatim>\<open>eat\<close> with a terminal that has the
  global flag). The offsets of \<open>state\<close> are integers, so that object is not a \<open>state\<close>;
  the model ends the run there and says so, and no statement about a returned state
  speaks of such a run.
\<close>

datatype js_error = TypeError | NaNIndex

type_synonym 'a outcome = "(js_error + 'a) option"

type_synonym parser = "state \<Rightarrow> state outcome"

text \<open>
  \<open>andThen m f\<close> is the JavaScript sequencing \<^verbatim>\<open>const a = m(); f(a)\<close>: when the call
  \<open>m\<close> throws or does not return, so does the whole.
\<close>

definition andThen :: "'a outcome \<Rightarrow> ('a \<Rightarrow> 'b outcome) \<Rightarrow> 'b outcome" where
  "andThen m f = (case m of None \<Rightarrow> None | Some (Inl e) \<Rightarrow> Some (Inl e) | Some (Inr a) \<Rightarrow> f a)"

definition returns :: "'a \<Rightarrow> 'a outcome" where
  "returns a = Some (Inr a)"

lemma andThen_simps [simp]:
  "andThen None f = None"
  "andThen (Some (Inl e)) f = Some (Inl e)"
  "andThen (Some (Inr a)) f = f a"
  "andThen (returns a) f = f a"
  by (simp_all add: andThen_def returns_def)

lemma andThen_mono [partial_function_mono]:
  assumes "\<And>y. mono_option (\<lambda>f. C y f)"
  shows "mono_option (\<lambda>f. andThen m (\<lambda>y. C y f))"
proof (cases m)
  case None
  then show ?thesis by (simp add: option.const_mono)
next
  case (Some r)
  then show ?thesis using assms
    by (cases r) (simp_all add: option.const_mono)
qed

subsection \<open>String primitives of the host language\<close>

text \<open>
  \<^verbatim>\<open>String.prototype.slice\<close>: a negative offset counts from the end, and every offset
  is clamped to the string.
\<close>

definition js_rel :: "int \<Rightarrow> nat \<Rightarrow> nat" where
  "js_rel i len = (if i < 0 then nat (max (int len + i) 0) else min (nat i) len)"

definition slice_from :: "string \<Rightarrow> int \<Rightarrow> string" where
  "slice_from s a = drop (js_rel a (length s)) s"

definition slice :: "string \<Rightarrow> int \<Rightarrow> int \<Rightarrow> string" where
  "slice s a b =
     (let from = js_rel a (length s); to = js_rel b (length s)
      in take (to - from) (drop from s))"

text \<open>\<^verbatim>\<open>target[index]\<close>: the one-character string at an offset, \<^verbatim>\<open>undefined\<close> elsewhere.\<close>

definition char_at :: "string \<Rightarrow> int \<Rightarrow> jsval" where
  "char_at s i = (if 0 \<le> i \<and> i < int (length s) then Str [s ! nat i] else Undefined)"

text \<open>The decimal text of an integer, as a template literal prints it.\<close>

definition digit_char :: "nat \<Rightarrow> char" where
  "digit_char d = ''0123456789'' ! d"

fun show_nat :: "nat \<Rightarrow> string" where
  "show_nat n = (if 10 \<le> n then show_nat (n div 10) @ [digit_char (n mod 10)] else [digit_char n])"

definition show_int :: "int \<Rightarrow> string" where
  "show_int i = (if 0 \<le> i then show_nat (nat i) else CHR ''-'' # show_nat (nat (- i)))"

text \<open>
  A regular expression of the host language is a parameter of the model: its printed
  form, its global flag, and its matching function, which gives the start and the length
  of the first match in a subject, if any. \<open>js_match\<close> gives what the module reads of
  \<^verbatim>\<open>subject.match(regex)\<close>: whether there is a match, the text \<^verbatim>\<open>[0]\<close> of the first
  match, which is by construction a piece of the subject, and its start. With the
  global flag the array that \<^verbatim>\<open>match\<close> returns has no \<^verbatim>\<open>index\<close> property; \<^verbatim>\<open>eat\<close>, the
  only reader of \<^verbatim>\<open>index\<close>, tests the flag.
\<close>

record regex =
  rx_text :: string
  rx_global :: bool
  rx_exec :: "string \<Rightarrow> (nat \<times> nat) option"

definition js_match :: "regex \<Rightarrow> string \<Rightarrow> (nat \<times> string) option" where
  "js_match rx subject =
     (case rx_exec rx subject of
        None \<Rightarrow> None
      | Some (i, n) \<Rightarrow> Some (i, take n (drop i subject)))"

text \<open>The class \<^verbatim>\<open>\s\<close> on the code units 0..255.\<close>

definition is_space :: "char \<Rightarrow> bool" where
  "is_space c = (c \<in> {CHR 0x09, CHR 0x0A, CHR 0x0B, CHR 0x0C, CHR 0x0D, CHR 0x20, CHR 0xA0})"

text \<open>The two tests \<^verbatim>\<open>/^\s*$/\<close> and \<^verbatim>\<open>/^,$/\<close> that the matchers hand to \<^verbatim>\<open>isSeparation\<close>.\<close>

definition rx_blank :: "string \<Rightarrow> bool" where
  "rx_blank s = list_all is_space s"

definition rx_comma :: "string \<Rightarrow> bool" where
  "rx_comma s = (s = '','')"

subsection \<open>The suggestions table\<close>

text \<open>
  \<^verbatim>\<open>addSuggestion(key, val)\<close> looks \<^verbatim>\<open>suggestions[key]\<close> up in a plain object, stores a
  new \<^verbatim>\<open>Set\<close> there when the value is falsy, and calls \<^verbatim>\<open>.add(val)\<close> on what is there.
  The key is turned into a property name (\<open>property_key\<close>, the host's \<^verbatim>\<open>String(key)\<close>).
  When that name is one that every object inherits, such as \<^verbatim>\<open>constructor\<close>, the lookup
  finds the inherited value, which is truthy and has no \<^verbatim>\<open>add\<close>, and the call throws a
  \<^verbatim>\<open>TypeError\<close>. Under every other name the table holds nothing or a \<^verbatim>\<open>Set\<close> that this
  function stored, and the call returns. So whether a call throws does not depend on
  the calls before it, no function of the module reads the table, and the model keeps
  the outcome of the call and not the table.
\<close>

fun join_comma :: "string list \<Rightarrow> string" where
  "join_comma [] = []"
| "join_comma [x] = x"
| "join_comma (x # y # ys) = x @ '','' @ join_comma (y # ys)"

fun property_key :: "jsval \<Rightarrow> string" where
  "property_key Null = ''null''"
| "property_key Undefined = ''undefined''"
| "property_key (Str s) = s"
| "property_key (Num n) = show_int n"
| "property_key (Arr xs) =
     join_comma (map (\<lambda>v. if v = Null \<or> v = Undefined then [] else property_key v) xs)"

text \<open>The names that an object literal inherits from \<^verbatim>\<open>Object.prototype\<close>.\<close>

definition object_prototype_names :: "string list" where
  "object_prototype_names =
     [''constructor'', ''__defineGetter__'', ''__defineSetter__'', ''hasOwnProperty'',
      ''__lookupGetter__'', ''__lookupSetter__'', ''isPrototypeOf'', ''propertyIsEnumerable'',
      ''toString'', ''valueOf'', ''__proto__'', ''toLocaleString'']"

definition addSuggestion :: "jsval \<Rightarrow> string \<Rightarrow> unit outcome" where
  "addSuggestion key val =
     (if property_key key \<in> set object_prototype_names then Some (Inl TypeError)
      else returns ())"

text \<open>\<^verbatim>\<open>lastMatchedToken\<close> as a value: \<^verbatim>\<open>null\<close> or a string.\<close>

definition token_val :: "string option \<Rightarrow> jsval" where
  "token_val t = (case t of None \<Rightarrow> Null | Some s \<Rightarrow> Str s)"

section \<open>State updates\<close>

definition initialState :: "string \<Rightarrow> state" where
  "initialState t =
     \<lparr>target = t, index = 0, result = Null, isError = False, error = None,
      errorChain = [], lastMatchedToken = None, lastMatchedParserIndex = 0,
      lastMatchedTokenIndex = 0\<rparr>"

definition run :: "parser \<Rightarrow> string \<Rightarrow> state outcome" where
  "run p t = p (initialState t)"

definition updateParserState :: "state \<Rightarrow> int \<Rightarrow> jsval \<Rightarrow> state" where
  "updateParserState s i r = s\<lparr>index := i, result := r\<rparr>"

definition updateParserResult :: "state \<Rightarrow> jsval \<Rightarrow> state" where
  "updateParserResult s r = s\<lparr>result := r\<rparr>"

definition updateParserError :: "state \<Rightarrow> string \<Rightarrow> state" where
  "updateParserError s errMsg =
     s\<lparr>isError := True, error := Some errMsg, errorChain := errorChain s @ [errMsg]\<rparr>"

definition isSeparation :: "string \<Rightarrow> (string \<Rightarrow> bool) list \<Rightarrow> bool" where
  "isSeparation s sepRegexs = list_ex (\<lambda>sep. sep s) sepRegexs"

section \<open>The methods of Parser\<close>

definition map_parser :: "parser \<Rightarrow> (jsval \<Rightarrow> jsval) \<Rightarrow> parser" where
  "map_parser p fn parserState =
     andThen (p parserState) (\<lambda>nextState.
       if isError nextState then returns nextState
       else returns (updateParserResult nextState (fn (result nextState))))"

definition errorMap :: "parser \<Rightarrow> (string option \<Rightarrow> int \<Rightarrow> string) \<Rightarrow> parser" where
  "errorMap p fn parserState =
     andThen (p parserState) (\<lambda>nextState.
       if \<not> isError nextState then returns nextState
       else returns (updateParserError nextState (fn (error nextState) (index nextState))))"

definition chain :: "parser \<Rightarrow> (state \<Rightarrow> parser) \<Rightarrow> parser" where
  "chain p fn parserState =
     andThen (p parserState) (\<lambda>nextState.
       if isError nextState then returns nextState
       else (fn nextState) nextState)"

section \<open>Primitive matchers\<close>

text \<open>
  Before either matcher returns an error state it calls \<^verbatim>\<open>addSuggestion\<close>, with
  \<^verbatim>\<open>lastMatchedToken\<close> as key when the two \<^verbatim>\<open>lastMatched\<close> offsets are equal and with
  \<^verbatim>\<open>result\<close> otherwise; when that call throws, no state is returned.
\<close>

definition regexParserFactory :: "regex \<Rightarrow> string \<Rightarrow> parser" where
  "regexParserFactory rx regexType parserState =
     (if isError parserState then returns parserState
      else
        let slicedTarget = slice_from (target parserState) (index parserState);
            matchedRes = js_match rx slicedTarget
        in if length slicedTarget = 0 \<and> matchedRes = None then
             andThen
               (if lastMatchedTokenIndex parserState = lastMatchedParserIndex parserState
                then addSuggestion (token_val (lastMatchedToken parserState)) (rx_text rx)
                else addSuggestion (result parserState) (rx_text rx))
               (\<lambda>_. returns (updateParserError parserState
                 (regexType @ '': Tried match '' @ rx_text rx @
                  '' got unexpected input at index '' @ show_int (index parserState))))
           else
             (case matchedRes of
                Some (at, m0) \<Rightarrow>
                  if isSeparation m0 [rx_blank, rx_comma] then
                    returns (updateParserState parserState
                      (index parserState + int (length m0)) (Str m0))
                  else
                    returns (updateParserState
                      (parserState\<lparr>lastMatchedToken := Some m0,
                         lastMatchedTokenIndex := index parserState + int (length m0),
                         lastMatchedParserIndex := index parserState + int (length m0)\<rparr>)
                      (index parserState + int (length m0)) (Str m0))
              | None \<Rightarrow>
                  andThen
                    (if lastMatchedTokenIndex parserState = lastMatchedParserIndex parserState
                     then addSuggestion (token_val (lastMatchedToken parserState)) (rx_text rx)
                     else addSuggestion (result parserState) (rx_text rx))
                    (\<lambda>_. returns (updateParserError parserState
                      (regexType @ '': Couldn't match '' @ rx_text rx @ '' at index '' @
                       show_int (index parserState) @ '', remaining string: '' @
                       slice slicedTarget 0 20)))))"

text \<open>\<^verbatim>\<open>/^[a-zA-Z]+/\<close> and \<^verbatim>\<open>/^[0-9]+/\<close>: the longest non-empty run at the start.\<close>

definition is_letter :: "char \<Rightarrow> bool" where
  "is_letter c = (c \<in> set ''abcdefghijklmnopqrstuvwxyzABCDEFGHIJKLMNOPQRSTUVWXYZ'')"

definition is_digit :: "char \<Rightarrow> bool" where
  "is_digit c = (c \<in> set ''0123456789'')"

definition rx_run :: "string \<Rightarrow> (char \<Rightarrow> bool) \<Rightarrow> regex" where
  "rx_run txt cls =
     \<lparr>rx_text = txt, rx_global = False,
      rx_exec = (\<lambda>subject.
        let n = length (takeWhile cls subject) in if n = 0 then None else Some (0, n))\<rparr>"

definition letters :: parser where
  "letters = regexParserFactory (rx_run ''/^[a-zA-Z]+/'' is_letter) ''letters''"

definition digits :: parser where
  "digits = regexParserFactory (rx_run ''/^[0-9]+/'' is_digit) ''digits''"

definition str :: "string \<Rightarrow> parser" where
  "str s parserState =
     (if isError parserState then returns parserState
      else
        let slicedTarget = slice_from (target parserState) (index parserState)
        in if length slicedTarget = 0 then
             andThen
               (if lastMatchedTokenIndex parserState = lastMatchedParserIndex parserState
                then addSuggestion (token_val (lastMatchedToken parserState)) s
                else addSuggestion (result parserState) s)
               (\<lambda>_. returns (updateParserError parserState
                 (''Tried to match '' @ s @ '' but got unexpected input'')))
           else if prefix s slicedTarget then
             (if isSeparation s [rx_blank, rx_comma] then
                returns (updateParserState parserState
                  (index parserState + int (length s)) (Str s))
              else
                returns (updateParserState
                  (parserState\<lparr>lastMatchedToken := Some s,
                     lastMatchedTokenIndex := index parserState + int (length s),
                     lastMatchedParserIndex := index parserState + int (length s)\<rparr>)
                  (index parserState + int (length s)) (Str s)))
           else
             andThen
               (if lastMatchedTokenIndex parserState = lastMatchedParserIndex parserState
                then addSuggestion (token_val (lastMatchedToken parserState)) s
                else addSuggestion (result parserState) s)
               (\<lambda>_. returns (updateParserError parserState
                 (''Tried to match '' @ s @ '' but got '' @
                  slice (target parserState) (index parserState) (index parserState + 10)))))"

text \<open>
  \<^verbatim>\<open>eat\<close> reads \<^verbatim>\<open>matched.index\<close>. When the terminal has the global flag and matches,
  that property is \<^verbatim>\<open>undefined\<close>, which differs from \<^verbatim>\<open>-1\<close>: the first branch is taken
  and the three offsets become \<^verbatim>\<open>index + undefined\<close>, that is \<^verbatim>\<open>NaN\<close>.
\<close>

definition eat :: "regex \<Rightarrow> parser" where
  "eat terminal parserState =
     (if isError parserState then returns parserState
      else
        let slicedTarget = slice_from (target parserState) (index parserState);
            matched = js_match terminal slicedTarget
        in if matched \<noteq> None \<and> rx_global terminal then Some (Inl NaNIndex)
           else
             let termIndex = (case matched of Some (at, m0) \<Rightarrow> int at | None \<Rightarrow> - 1);
                 eatenToken = slice slicedTarget 0 termIndex
             in if termIndex \<noteq> - 1 then
                  returns (updateParserState
                    (parserState\<lparr>lastMatchedToken := Some eatenToken,
                       lastMatchedTokenIndex := index parserState + termIndex,
                       lastMatchedParserIndex := index parserState + termIndex\<rparr>)
                    (index parserState + termIndex) (Str eatenToken))
                else
                  returns (updateParserState
                    (parserState\<lparr>lastMatchedToken := Some slicedTarget,
                       lastMatchedTokenIndex := int (length (target parserState)),
                       lastMatchedParserIndex := int (length (target parserState))\<rparr>)
                    (int (length (target parserState))) (Str slicedTarget)))"

definition succeed :: "jsval \<Rightarrow> parser" where
  "succeed v parserState =
     (if isError parserState then returns parserState
      else returns (updateParserResult parserState v))"

definition lazy :: "(unit \<Rightarrow> parser) \<Rightarrow> parser" where
  "lazy thunkParser parserState = (thunkParser ()) parserState"

definition peek :: parser where
  "peek parserState =
     returns (updateParserResult parserState (char_at (target parserState) (index parserState)))"

definition getCurState :: parser where
  "getCurState parserState = returns parserState"

definition setCurState :: "state \<Rightarrow> parser" where
  "setCurState s parserState = returns s"

section \<open>Combinators\<close>

text \<open>
  \<^verbatim>\<open>sequenceOf\<close>: the \<^verbatim>\<open>for ... of\<close> loop calls every parser of the list, whatever the
  state the one before returned, and pushes every result; \<^verbatim>\<open>isError\<close> is looked at
  once, after the loop.
\<close>

fun sequenceOf_loop :: "parser list \<Rightarrow> state \<Rightarrow> jsval list \<Rightarrow> (state \<times> jsval list) outcome" where
  "sequenceOf_loop [] nextState results = returns (nextState, results)"
| "sequenceOf_loop (parser # parsers) nextState results =
     andThen (parser nextState) (\<lambda>nextState'.
       sequenceOf_loop parsers nextState' (results @ [result nextState']))"

definition sequenceOf :: "parser list \<Rightarrow> parser" where
  "sequenceOf parsers parserState =
     (if isError parserState then returns parserState
      else
        andThen (sequenceOf_loop parsers parserState []) (\<lambda>(nextState, results).
          if isError nextState then returns nextState
          else returns (updateParserResult nextState (Arr results))))"

text \<open>
  \<^verbatim>\<open>choice\<close>. The condition \<^verbatim>\<open>nextState.lastMatchedToken && ...\<close> tests the token for
  truthiness: \<^verbatim>\<open>null\<close> and the empty string are false. The call of \<^verbatim>\<open>console.log\<close> on
  a failed alternative changes no state and is left out.
\<close>

definition truthy :: "string option \<Rightarrow> bool" where
  "truthy t = (case t of None \<Rightarrow> False | Some s \<Rightarrow> s \<noteq> [])"

fun choice_loop :: "parser list \<Rightarrow> state \<Rightarrow> string option \<Rightarrow> int \<Rightarrow> int \<Rightarrow> state outcome" where
  "choice_loop [] parserState lastToken lastTokenIndex preStateMatchedTokenState =
     returns (updateParserError
       (parserState\<lparr>lastMatchedToken := lastToken, lastMatchedTokenIndex := lastTokenIndex\<rparr>)
       (''choice: unable to match any parser at index '' @ show_int (index parserState)))"
| "choice_loop (parser # parsers) parserState lastToken lastTokenIndex preStateMatchedTokenState =
     andThen (parser parserState) (\<lambda>nextState.
       if \<not> isError nextState then returns nextState
       else if truthy (lastMatchedToken nextState) \<and>
               lastMatchedTokenIndex nextState > preStateMatchedTokenState
       then choice_loop parsers parserState (lastMatchedToken nextState)
              (lastMatchedTokenIndex nextState) (lastMatchedTokenIndex nextState)
       else choice_loop parsers parserState lastToken lastTokenIndex preStateMatchedTokenState)"

definition choice :: "parser list \<Rightarrow> parser" where
  "choice parsers parserState =
     (if isError parserState then returns parserState
      else choice_loop parsers parserState None 0 0)"

text \<open>
  \<^verbatim>\<open>many\<close>: the loop ends at the first failing application and has no other exit, so it
  is a partial function: on a body that succeeds for ever its value is \<open>None\<close>.
\<close>

partial_function (option) many_loop ::
  "parser \<Rightarrow> jsval list \<Rightarrow> state \<Rightarrow> state \<Rightarrow> (js_error + state) option" where
  "many_loop parser results nextState lastSuccessState =
     andThen (parser nextState) (\<lambda>nextState'.
       if \<not> isError nextState' then
         many_loop parser (results @ [result nextState']) nextState' nextState'
       else
         returns (updateParserResult
           (lastSuccessState\<lparr>errorChain := errorChain nextState',
              lastMatchedToken := lastMatchedToken nextState',
              lastMatchedTokenIndex := lastMatchedTokenIndex nextState'\<rparr>)
           (Arr results)))"

declare many_loop.simps [code]

definition many :: "parser \<Rightarrow> parser" where
  "many parser parserState =
     (if isError parserState then returns parserState
      else many_loop parser [] parserState parserState)"

partial_function (option) manyOne_loop ::
  "parser \<Rightarrow> state \<Rightarrow> jsval list \<Rightarrow> state \<Rightarrow> (js_error + state) option" where
  "manyOne_loop parser parserState results nextState =
     andThen (parser nextState) (\<lambda>lastState.
       if \<not> isError lastState then
         manyOne_loop parser parserState (results @ [result lastState]) lastState
       else if length results = 0 then
         returns (updateParserError
           (parserState\<lparr>errorChain := errorChain lastState,
              lastMatchedToken := lastMatchedToken lastState,
              lastMatchedTokenIndex := lastMatchedTokenIndex lastState\<rparr>)
           (''manyOne: Unable to match any input using parser at index '' @
            show_int (index parserState)))
       else
         returns (updateParserResult
           (nextState\<lparr>errorChain := errorChain lastState,
              lastMatchedToken := lastMatchedToken lastState,
              lastMatchedTokenIndex := lastMatchedTokenIndex lastState\<rparr>)
           (Arr results)))"

declare manyOne_loop.simps [code]

definition manyOne :: "parser \<Rightarrow> parser" where
  "manyOne parser parserState =
     (if isError parserState then returns parserState
      else manyOne_loop parser parserState [] parserState)"

text \<open>\<^verbatim>\<open>results => results[1]\<close>, on the array that \<^verbatim>\<open>sequenceOf\<close> hands to it.\<close>

definition second_elem :: "jsval \<Rightarrow> jsval" where
  "second_elem v =
     (case v of
        Arr xs \<Rightarrow> (if 1 < length xs then xs ! 1 else Undefined)
      | Str cs \<Rightarrow> char_at cs 1
      | _ \<Rightarrow> Undefined)"

definition between :: "parser \<Rightarrow> parser \<Rightarrow> parser \<Rightarrow> parser" where
  "between leftParser rightParser contentParser =
     map_parser (sequenceOf [leftParser, contentParser, rightParser]) second_elem"

text \<open>
  \<^verbatim>\<open>sepBy\<close> and \<^verbatim>\<open>sepByOne\<close>: \<^verbatim>\<open>while (true)\<close> with two \<^verbatim>\<open>break\<close>s, on a failed value
  and on a failed separator; after a separator that matched, the loop goes on from the
  separator's state.
\<close>

partial_function (option) sepBy_loop ::
  "parser \<Rightarrow> parser \<Rightarrow> jsval list \<Rightarrow> state \<Rightarrow> (js_error + state) option" where
  "sepBy_loop separatorParser valueParser results nextState =
     andThen (valueParser nextState) (\<lambda>thingWeWantState.
       if isError thingWeWantState then
         returns (updateParserResult
           (nextState\<lparr>errorChain := errorChain thingWeWantState,
              lastMatchedToken := lastMatchedToken thingWeWantState,
              lastMatchedTokenIndex := lastMatchedTokenIndex thingWeWantState\<rparr>)
           (Arr results))
       else
         andThen (separatorParser thingWeWantState) (\<lambda>separatorState.
           if isError separatorState then
             returns (updateParserResult
               (thingWeWantState\<lparr>errorChain := errorChain thingWeWantState,
                  lastMatchedToken := lastMatchedToken thingWeWantState,
                  lastMatchedTokenIndex := lastMatchedTokenIndex thingWeWantState\<rparr>)
               (Arr (results @ [result thingWeWantState])))
           else
             sepBy_loop separatorParser valueParser
               (results @ [result thingWeWantState]) separatorState))"

declare sepBy_loop.simps [code]

definition sepBy :: "parser \<Rightarrow> parser \<Rightarrow> parser" where
  "sepBy separatorParser valueParser parserState =
     (if isError parserState then returns parserState
      else sepBy_loop separatorParser valueParser [] parserState)"

partial_function (option) sepByOne_loop ::
  "parser \<Rightarrow> parser \<Rightarrow> state \<Rightarrow> jsval list \<Rightarrow> state \<Rightarrow> (js_error + state) option" where
  "sepByOne_loop separatorParser valueParser parserState results nextState =
     andThen (valueParser nextState) (\<lambda>thingWeWantState.
       if isError thingWeWantState then
         (if length results = 0 then
            returns (updateParserError
              (parserState\<lparr>errorChain := errorChain thingWeWantState,
                 lastMatchedToken := lastMatchedToken thingWeWantState,
                 lastMatchedTokenIndex := lastMatchedTokenIndex thingWeWantState\<rparr>)
              (''sepByOne: Unable to capture any results using parser at index '' @
               show_int (index parserState)))
          else
            returns (updateParserResult
              (nextState\<lparr>errorChain := errorChain thingWeWantState,
                 lastMatchedToken := lastMatchedToken thingWeWantState,
                 lastMatchedTokenIndex := lastMatchedTokenIndex thingWeWantState\<rparr>)
              (Arr results)))
       else
         andThen (separatorParser thingWeWantState) (\<lambda>separatorState.
           if isError separatorState then
             returns (updateParserResult
               (thingWeWantState\<lparr>errorChain := errorChain thingWeWantState,
                  lastMatchedToken := lastMatchedToken thingWeWantState,
                  lastMatchedTokenIndex := lastMatchedTokenIndex thingWeWantState\<rparr>)
               (Arr (results @ [result thingWeWantState])))
           else
             sepByOne_loop separatorParser valueParser parserState
               (results @ [result thingWeWantState]) separatorState))"

declare sepByOne_loop.simps [code]

definition sepByOne :: "parser \<Rightarrow> parser \<Rightarrow> parser" where
  "sepByOne separatorParser valueParser parserState =
     (if isError parserState then returns parserState
      else sepByOne_loop separatorParser valueParser parserState [] parserState)"

definition oneOrZero :: "parser \<Rightarrow> parser" where
  "oneOrZero parser = choice [parser, succeed Null]"

text \<open>
  \<^verbatim>\<open>sequenceSepBy\<close>: the counting loop runs while \<^verbatim>\<open>count < parsers.length - 1\<close>; the
  statement after it reads \<^verbatim>\<open>parsers[count]\<close>, which is \<^verbatim>\<open>undefined\<close> when the list is
  empty, and calling a method of \<^verbatim>\<open>undefined\<close> throws a \<^verbatim>\<open>TypeError\<close>.
\<close>

function sequenceSepBy_loop ::
  "parser \<Rightarrow> parser list \<Rightarrow> nat \<Rightarrow> state \<Rightarrow> jsval list \<Rightarrow> (nat \<times> state \<times> jsval list) outcome" where
  "sequenceSepBy_loop sep parsers count nextState results =
     (if int count < int (length parsers) - 1 then
        andThen ((parsers ! count) nextState) (\<lambda>valueState.
          andThen (sep valueState) (\<lambda>sepState.
            sequenceSepBy_loop sep parsers (count + 1) sepState
              (results @ [result valueState])))
      else returns (count, nextState, results))"
  by pat_completeness auto
termination
  by (relation "measure (\<lambda>(sep, parsers, count, nextState, results). length parsers - count)")
    auto

declare sequenceSepBy_loop.simps [simp del]

definition sequenceSepBy :: "parser \<Rightarrow> parser list \<Rightarrow> parser" where
  "sequenceSepBy sep parsers parserState =
     (if isError parserState then returns parserState
      else
        andThen (sequenceSepBy_loop sep parsers 0 parserState []) (\<lambda>(count, nextState, results).
          if count < length parsers then
            andThen ((parsers ! count) nextState) (\<lambda>lastState.
              if isError lastState then returns lastState
              else returns (updateParserResult lastState (Arr (results @ [result lastState]))))
          else Some (Inl TypeError)))"

text \<open>
  \<^verbatim>\<open>contextual\<close> drives a generator. A generator is modelled by what it does when
  resumed: it returns a value, or it yields a parser and waits for the state that
  \<^verbatim>\<open>gen.next(nextState)\<close> hands back.
\<close>

datatype gen = GReturn jsval | GYield parser "state \<Rightarrow> gen"

primrec runStep :: "gen \<Rightarrow> parser" where
  "runStep (GReturn v) = succeed v"
| "runStep (GYield nextParser resume) = chain nextParser (\<lambda>nextState. runStep (resume nextState))"

definition contextual :: "gen \<Rightarrow> parser" where
  "contextual parserGenerator = chain (succeed Null) (\<lambda>_. runStep parserGenerator)"

section \<open>Predicates used in the statements\<close>

text \<open>The key under which a failing matcher files its suggestion.\<close>

definition suggestion_key :: "state \<Rightarrow> jsval" where
  "suggestion_key s =
     (if lastMatchedTokenIndex s = lastMatchedParserIndex s then token_val (lastMatchedToken s)
      else result s)"



text \<open>
  \<^verbatim>\<open>sequenceSepBy\<close> as its description has it: the first parser, the separator, the
  second parser, and so on to the last parser, each called on the state that the call
  before returned, error or not; the results of the parsers are collected, those of the
  separator are not; on the empty list there is no last parser to call.

  \<open>calls_return sep ps x ts\<close>: those calls, made in this order from \<open>x\<close>, all return a
  state, and \<open>ts\<close> are the states they return. \<open>parser_states ts\<close> are the states among
  them that the parsers returned.
\<close>

fun sequenceSepBy_spec ::
  "parser \<Rightarrow> parser list \<Rightarrow> state \<Rightarrow> jsval list \<Rightarrow> (state \<times> jsval list) outcome" where
  "sequenceSepBy_spec sep [] s rs = Some (Inl TypeError)"
| "sequenceSepBy_spec sep [p] s rs = andThen (p s) (\<lambda>t. returns (t, rs @ [result t]))"
| "sequenceSepBy_spec sep (p # q # ps) s rs =
     andThen (p s) (\<lambda>t. andThen (sep t) (\<lambda>u.
       sequenceSepBy_spec sep (q # ps) u (rs @ [result t])))"

fun calls_return :: "parser \<Rightarrow> parser list \<Rightarrow> state \<Rightarrow> state list \<Rightarrow> bool" where
  "calls_return sep [p] x [t] = (p x = Some (Inr t))"
| "calls_return sep (p # q # ps) x (t # u # ts) =
     (p x = Some (Inr t) \<and> sep t = Some (Inr u) \<and> calls_return sep (q # ps) u ts)"
| "calls_return sep ps x ts = False"

fun parser_states :: "state list \<Rightarrow> state list" where
  "parser_states [] = []"
| "parser_states [t] = [t]"
| "parser_states (t # u # ts) = t # parser_states ts"

text \<open>
  \<open>passes_errors p\<close>: the parser hands an error state back as it is.
  \<open>steps_ok ps x ss\<close>: run in order from \<open>x\<close>, each parser of \<open>ps\<close> starts where the one
  before left off and succeeds; \<open>ss\<close> are the states they return.
\<close>

definition passes_errors :: "parser \<Rightarrow> bool" where
  "passes_errors p \<longleftrightarrow> (\<forall>e. isError e \<longrightarrow> p e = Some (Inr e))"

fun steps_ok :: "parser list \<Rightarrow> state \<Rightarrow> state list \<Rightarrow> bool" where
  "steps_ok [] x [] = True"
| "steps_ok (p # ps) x (s # ss) = (p x = Some (Inr s) \<and> \<not> isError s \<and> steps_ok ps s ss)"
| "steps_ok [] x (s # ss) = False"
| "steps_ok (p # ps) x [] = False"

text \<open>
  \<open>all_fail ps x es\<close>: each parser of \<open>ps\<close>, run on the same state \<open>x\<close>, returns an
  error state; \<open>es\<close> are those states, in order.
\<close>

fun all_fail :: "parser list \<Rightarrow> state \<Rightarrow> state list \<Rightarrow> bool" where
  "all_fail [] x [] = True"
| "all_fail (p # ps) x (e # es) = (p x = Some (Inr e) \<and> isError e \<and> all_fail ps x es)"
| "all_fail [] x (e # es) = False"
| "all_fail (p # ps) x [] = False"

text \<open>
  The pattern \<^verbatim>\<open>/c/\<close> of one literal character: its first occurrence. The same pattern
  with the global flag is \<open>(rx_char txt c)\<lparr>rx_global := True\<rparr>\<close>.
\<close>

definition rx_char :: "string \<Rightarrow> char \<Rightarrow> regex" where
  "rx_char txt c =
     \<lparr>rx_text = txt, rx_global = False,
      rx_exec = (\<lambda>subject.
        if c \<in> set subject then Some (length (takeWhile (\<lambda>d. d \<noteq> c) subject), 1) else None)\<rparr>"

text \<open>
  \<open>rounds_ok sep v x rounds\<close>: from \<open>x\<close>, the value parser and then the separator succeed,
  round after round; each pair of \<open>rounds\<close> holds the state after the value and the state
  after the separator.
\<close>

fun rounds_ok :: "parser \<Rightarrow> parser \<Rightarrow> state \<Rightarrow> (state \<times> state) list \<Rightarrow> bool" where
  "rounds_ok sep v x [] = True"
| "rounds_ok sep v x ((t, u) # rounds) =
     (v x = Some (Inr t) \<and> \<not> isError t \<and> sep t = Some (Inr u) \<and> \<not> isError u \<and>
      rounds_ok sep v u rounds)"

text \<open>
  \<open>in_bounds s\<close>: the index is an offset into the target. \<open>advances p\<close>: from a state
  in bounds, every state that \<open>p\<close> returns, error or not, has the same target and an
  index in bounds that is not below the one it started from. \<open>rx_ok rx\<close>: a match that the
  regex engine reports lies inside the subject.
\<close>

definition in_bounds :: "state \<Rightarrow> bool" where
  "in_bounds s \<longleftrightarrow> 0 \<le> index s \<and> index s \<le> int (length (target s))"

definition advances :: "parser \<Rightarrow> bool" where
  "advances p \<longleftrightarrow>
     (\<forall>s s'. in_bounds s \<and> p s = Some (Inr s') \<longrightarrow>
        target s' = target s \<and> index s \<le> index s' \<and> in_bounds s')"

definition rx_ok :: "regex \<Rightarrow> bool" where
  "rx_ok rx \<longleftrightarrow> (\<forall>subject i n. rx_exec rx subject = Some (i, n) \<longrightarrow> i + n \<le> length subject)"

text \<open>
  The parsers a client can build from the module's exports without \<^verbatim>\<open>setCurState\<close>
  and without a pattern with the global flag for \<^verbatim>\<open>eat\<close>.
  \<^verbatim>\<open>caseStr\<close>, \<^verbatim>\<open>strictCaseStr\<close> and \<^verbatim>\<open>strictStr\<close> are instances of
  \<^verbatim>\<open>regexParserFactory\<close>; the parsers a generator hands to \<^verbatim>\<open>contextual\<close> are covered
  by \<open>gen_public\<close>.
\<close>

inductive public :: "parser \<Rightarrow> bool" where
  pub_regex: "public (regexParserFactory rx ty)"
| pub_str: "public (str lit)"
| pub_eat: "rx_ok rx \<Longrightarrow> \<not> rx_global rx \<Longrightarrow> public (eat rx)"
| pub_peek: "public peek"
| pub_getCurState: "public getCurState"
| pub_succeed: "public (succeed v)"
| pub_map: "public p \<Longrightarrow> public (map_parser p fn)"
| pub_errorMap: "public p \<Longrightarrow> public (errorMap p efn)"
| pub_chain: "public p \<Longrightarrow> (\<And>s. public (cfn s)) \<Longrightarrow> public (chain p cfn)"
| pub_sequenceOf: "\<forall>p \<in> set ps. public p \<Longrightarrow> public (sequenceOf ps)"
| pub_choice: "\<forall>p \<in> set ps. public p \<Longrightarrow> public (choice ps)"
| pub_many: "public p \<Longrightarrow> public (many p)"
| pub_manyOne: "public p \<Longrightarrow> public (manyOne p)"
| pub_between: "public l \<Longrightarrow> public r \<Longrightarrow> public c \<Longrightarrow> public (between l r c)"
| pub_sepBy: "public sep \<Longrightarrow> public p \<Longrightarrow> public (sepBy sep p)"
| pub_sepByOne: "public sep \<Longrightarrow> public p \<Longrightarrow> public (sepByOne sep p)"
| pub_lazy: "public (thunk ()) \<Longrightarrow> public (lazy thunk)"
| pub_oneOrZero: "public p \<Longrightarrow> public (oneOrZero p)"
| pub_sequenceSepBy:
    "public sep \<Longrightarrow> \<forall>p \<in> set ps. public p \<Longrightarrow> public (sequenceSepBy sep ps)"

inductive gen_public :: "gen \<Rightarrow> bool" where
  gen_return: "gen_public (GReturn v)"
| gen_yield: "public p \<Longrightarrow> (\<And>s. gen_public (resume s)) \<Longrightarrow> gen_public (GYield p resume)"

text \<open>The callback \<^verbatim>\<open>() => p\<close>, which ignores the state that \<^verbatim>\<open>chain\<close> hands to it.\<close>

definition always :: "parser \<Rightarrow> state \<Rightarrow> parser" where
  "always p s = p"

section \<open>Facts about the host-language primitives\<close>

lemma outcome_cases:
  obtains (Diverges) "m = None" | (Throws) err where "m = Some (Inl err)"
    | (Returns) a where "m = Some (Inr a)"
proof (cases m)
  case None
  then show ?thesis by (rule Diverges)
next
  case (Some r)
  then show ?thesis by (cases r) (auto intro: Throws Returns)
qed

lemma andThen_eq_Inr:
  "andThen m f = Some (Inr b) \<longleftrightarrow> (\<exists>a. m = Some (Inr a) \<and> f a = Some (Inr b))"
  by (cases m rule: outcome_cases) simp_all

lemma andThen_eq_Some:
  "andThen m f = Some y \<longleftrightarrow>
     (\<exists>err. m = Some (Inl err) \<and> y = Inl err) \<or> (\<exists>a. m = Some (Inr a) \<and> f a = Some y)"
  by (cases m rule: outcome_cases) auto

lemma andThen_assoc:
  "andThen (andThen m f) g = andThen m (\<lambda>a. andThen (f a) g)"
  by (simp add: andThen_def split: option.splits sum.splits)

lemma slice_from_past_end: "int (length t) \<le> i \<Longrightarrow> slice_from t i = []"
  by (simp add: slice_from_def js_rel_def)

lemma isSeparation_Nil: "isSeparation [] [rx_blank, rx_comma]"
  by (simp add: isSeparation_def rx_blank_def)

section \<open>The literal matcher at the end of the input\<close>

lemma addSuggestion_key:
  "(if lastMatchedTokenIndex s = lastMatchedParserIndex s
    then addSuggestion (token_val (lastMatchedToken s)) v
    else addSuggestion (result s) v) = addSuggestion (suggestion_key s) v"
  by (simp add: suggestion_key_def)

lemma addSuggestion_cases:
  "addSuggestion k v = Some (Inl TypeError) \<or> addSuggestion k v = Some (Inr ())"
  by (simp add: addSuggestion_def returns_def)

text \<open>
  What \<^verbatim>\<open>str\<close> does at an empty remaining suffix, and \<^verbatim>\<open>str("")\<close> at one that is not
  empty: there the empty literal matches as a separation, and no suggestion is filed.
\<close>

lemma str_at_empty_suffix:
  assumes "\<not> isError x"
  shows "(slice_from (target x) (index x) = [] \<longrightarrow>
           str s x =
             (if property_key (suggestion_key x) \<in> set object_prototype_names
              then Some (Inl TypeError)
              else Some (Inr (updateParserError x
                (''Tried to match '' @ s @ '' but got unexpected input'')))))
       \<and> (int (length (target x)) \<le> index x \<longrightarrow> slice_from (target x) (index x) = [])
       \<and> (slice_from (target x) (index x) \<noteq> [] \<longrightarrow>
           str [] x = Some (Inr (x\<lparr>result := Str []\<rparr>)))"
  using assms
  by (simp add: str_def addSuggestion_key addSuggestion_def returns_def updateParserState_def
      slice_from_past_end isSeparation_Nil)

text \<open>
  Claim C9. \<^verbatim>\<open>str("constructor")\<close> consumes the whole input \<^verbatim>\<open>"constructor"\<close> and leaves
  a state that is not an error, whose remaining suffix is empty and whose
  \<^verbatim>\<open>lastMatchedToken\<close> is \<^verbatim>\<open>"constructor"\<close>, with both \<^verbatim>\<open>lastMatched\<close> offsets at 11. On
  that state \<^verbatim>\<open>str("x")\<close> does not return an error state: \<^verbatim>\<open>addSuggestion\<close> is called
  first with the key \<^verbatim>\<open>"constructor"\<close>, finds the function every object inherits under
  that name, and throws a \<^verbatim>\<open>TypeError\<close>; so does the empty literal \<^verbatim>\<open>str("")\<close>.
\<close>

theorem str_throws_at_end_of_input:
  "str ''constructor'' (initialState ''constructor'') =
     Some (Inr ((initialState ''constructor'')\<lparr>index := 11, result := Str ''constructor'',
       lastMatchedToken := Some ''constructor'', lastMatchedParserIndex := 11,
       lastMatchedTokenIndex := 11\<rparr>))
   \<and> slice_from ''constructor'' 11 = []
   \<and> str ''x'' ((initialState ''constructor'')\<lparr>index := 11, result := Str ''constructor'',
       lastMatchedToken := Some ''constructor'', lastMatchedParserIndex := 11,
       lastMatchedTokenIndex := 11\<rparr>) = Some (Inl TypeError)
   \<and> str [] ((initialState ''constructor'')\<lparr>index := 11, result := Str ''constructor'',
       lastMatchedToken := Some ''constructor'', lastMatchedParserIndex := 11,
       lastMatchedTokenIndex := 11\<rparr>) = Some (Inl TypeError)
   \<and> run (sequenceOf [str ''constructor'', str ''x'']) ''constructor'' = Some (Inl TypeError)"
  by (simp add: str_def sequenceOf_def returns_def updateParserState_def updateParserError_def
      slice_from_def slice_def js_rel_def isSeparation_def rx_blank_def rx_comma_def is_space_def
      initialState_def run_def Let_def addSuggestion_def token_val_def
      object_prototype_names_def)



lemma slice_from_nonneg: "0 \<le> i \<Longrightarrow> slice_from t i = drop (nat i) t"
  by (simp add: slice_from_def js_rel_def min_def)


lemmas state_update_defs =
  returns_def updateParserState_def updateParserResult_def updateParserError_def

lemmas host_defs =
  slice_from_def slice_def js_rel_def char_at_def js_match_def show_int_def digit_char_def
  isSeparation_def rx_blank_def rx_comma_def is_space_def truthy_def rx_run_def
  is_digit_def is_letter_def initialState_def run_def Let_def
  addSuggestion_def token_val_def object_prototype_names_def

section \<open>The high-water mark of the two matchers\<close>






section \<open>Error states and the combinators\<close>

text \<open>
  A state with \<^verbatim>\<open>isError\<close> set is handed back as it is by every parser and combinator
  that begins with the test \<^verbatim>\<open>if (parserState.isError) return parserState\<close>, and by
  those built from them.
\<close>

lemma error_state_passes_through:
  assumes "isError e"
  shows "regexParserFactory rx ty e = Some (Inr e)"
    and "str s e = Some (Inr e)"
    and "eat rx e = Some (Inr e)"
    and "succeed v e = Some (Inr e)"
    and "getCurState e = Some (Inr e)"
    and "sequenceOf ps e = Some (Inr e)"
    and "choice ps e = Some (Inr e)"
    and "oneOrZero p e = Some (Inr e)"
    and "many p e = Some (Inr e)"
    and "manyOne p e = Some (Inr e)"
    and "sepBy sep p e = Some (Inr e)"
    and "sepByOne sep p e = Some (Inr e)"
    and "sequenceSepBy sep ps e = Some (Inr e)"
    and "between l r p e = Some (Inr e)"
    and "contextual g e = Some (Inr e)"
  using assms
  by (simp_all add: regexParserFactory_def str_def eat_def succeed_def getCurState_def
      sequenceOf_def choice_def oneOrZero_def many_def manyOne_def sepBy_def sepByOne_def
      sequenceSepBy_def between_def map_parser_def contextual_def chain_def returns_def)

text \<open>
  Claim C4. \<^verbatim>\<open>peek\<close> has no test of \<^verbatim>\<open>isError\<close>: it overwrites \<^verbatim>\<open>result\<close> in every
  state, so an error state does not pass through it unchanged. Here \<^verbatim>\<open>str("a")\<close> fails
  on the input \<^verbatim>\<open>"b"\<close> with result \<^verbatim>\<open>null\<close>, and \<^verbatim>\<open>peek\<close>, run next by \<^verbatim>\<open>sequenceOf\<close>,
  returns that error state with the result \<^verbatim>\<open>"b"\<close>; \<^verbatim>\<open>succeed\<close>, which begins with the
  test, returns the error state as it is.
\<close>

theorem peek_overwrites_error_state:
  "str ''a'' (initialState ''b'') =
     Some (Inr (updateParserError (initialState ''b'') ''Tried to match a but got b''))
   \<and> isError (updateParserError (initialState ''b'') ''Tried to match a but got b'')
   \<and> result (updateParserError (initialState ''b'') ''Tried to match a but got b'') = Null
   \<and> peek (updateParserError (initialState ''b'') ''Tried to match a but got b'') =
     Some (Inr ((updateParserError (initialState ''b'') ''Tried to match a but got b'')
       \<lparr>result := Str ''b''\<rparr>))
   \<and> peek (updateParserError (initialState ''b'') ''Tried to match a but got b'') \<noteq>
     Some (Inr (updateParserError (initialState ''b'') ''Tried to match a but got b''))
   \<and> succeed (Str ''v'') (updateParserError (initialState ''b'') ''Tried to match a but got b'') =
     Some (Inr (updateParserError (initialState ''b'') ''Tried to match a but got b''))
   \<and> run (sequenceOf [str ''a'', peek]) ''b'' =
     Some (Inr ((updateParserError (initialState ''b'') ''Tried to match a but got b'')
       \<lparr>result := Str ''b''\<rparr>))"
  by (simp add: str_def peek_def succeed_def sequenceOf_def state_update_defs host_defs)

section \<open>sequenceSepBy and the list of parsers\<close>

lemma sequenceSepBy_loop_spec:
  "andThen (sequenceSepBy_loop sep ps count s rs)
     (\<lambda>(c, s', rs').
        if c < length ps then andThen ((ps ! c) s') (\<lambda>l. returns (l, rs' @ [result l]))
        else Some (Inl TypeError)) =
   sequenceSepBy_spec sep (drop count ps) s rs"
proof (induction sep ps count s rs rule: sequenceSepBy_loop.induct)
  case (1 sep ps count s rs)
  show ?case
  proof (cases "int count < int (length ps) - 1")
    case True
    then have lt: "Suc count < length ps" by simp
    then have d: "drop count ps = ps ! count # ps ! Suc count # drop (Suc (Suc count)) ps"
      by (simp add: Cons_nth_drop_Suc)
    have d': "drop (Suc count) ps = ps ! Suc count # drop (Suc (Suc count)) ps"
      using lt by (simp add: Cons_nth_drop_Suc)
    have ih: "andThen (sequenceSepBy_loop sep ps (count + 1) u (rs @ [result t]))
        (\<lambda>(c, s', rs').
           if c < length ps then andThen ((ps ! c) s') (\<lambda>l. returns (l, rs' @ [result l]))
           else Some (Inl TypeError)) =
        sequenceSepBy_spec sep (drop (count + 1) ps) u (rs @ [result t])" for t :: state and u
      by (rule "1.IH" [OF True])
    show ?thesis
      apply (subst sequenceSepBy_loop.simps)
      apply (simp only: True if_True andThen_assoc ih d)
      apply (simp add: d')
      done
  next
    case False
    show ?thesis
    proof (cases "count < length ps")
      case True
      then have "drop count ps = [ps ! count]"
        using False by (simp add: Cons_nth_drop_Suc [symmetric])
      then show ?thesis using False True
        by (subst sequenceSepBy_loop.simps) (simp add: returns_def)
    next
      case ge: False
      then show ?thesis using False
        by (subst sequenceSepBy_loop.simps) (simp add: returns_def)
    qed
  qed
qed

lemma sequenceSepBy_spec_calls_return:
  "calls_return sep ps x ts \<Longrightarrow>
     sequenceSepBy_spec sep ps x rs =
       Some (Inr (last ts, rs @ map result (parser_states ts)))"
  by (induction sep ps x ts arbitrary: rs rule: calls_return.induct) (auto simp: returns_def)

lemma sequenceSepBy_eq_spec:
  assumes "\<not> isError x"
  shows "sequenceSepBy sep ps x =
           andThen (sequenceSepBy_spec sep ps x [])
             (\<lambda>(s, rs). if isError s then returns s
                        else returns (updateParserResult s (Arr rs)))"
proof -
  have "andThen (sequenceSepBy_spec sep ps x [])
          (\<lambda>(s, rs). if isError s then returns s else returns (updateParserResult s (Arr rs))) =
        andThen (andThen (sequenceSepBy_loop sep ps 0 x [])
          (\<lambda>(c, s', rs').
             if c < length ps then andThen ((ps ! c) s') (\<lambda>l. returns (l, rs' @ [result l]))
             else Some (Inl TypeError)))
          (\<lambda>(s, rs). if isError s then returns s else returns (updateParserResult s (Arr rs)))"
    using sequenceSepBy_loop_spec [of sep ps 0 x "[]"] by simp
  also have "\<dots> = andThen (sequenceSepBy_loop sep ps 0 x [])
          (\<lambda>(c, s', rs').
             if c < length ps then
               andThen ((ps ! c) s') (\<lambda>l.
                 if isError l then returns l
                 else returns (updateParserResult l (Arr (rs' @ [result l]))))
             else Some (Inl TypeError))"
    by (simp add: andThen_assoc case_prod_unfold if_distrib [of "\<lambda>m. andThen m _"]
        cong: if_cong)
  finally show ?thesis using assms by (simp add: sequenceSepBy_def)
qed

text \<open>
  Claim C10, as the code has it. On a state \<open>x\<close> that is not an error,
  \<^verbatim>\<open>sequenceSepBy(sep)(parsers)\<close> does what the description above says, for a list of any
  length: it calls the first parser, the separator, the second parser, and so on to the
  last parser, the separator between consecutive parsers only, and it throws or fails
  to return when one of these calls does. When all of them return a state, it returns
  the last of these states if that is an error, and otherwise that state with the list
  of the parsers' results. On the empty list it throws a \<^verbatim>\<open>TypeError\<close>.
\<close>

theorem sequenceSepBy_total_on_nonempty:
  assumes "\<not> isError x"
  shows "sequenceSepBy sep ps x =
           andThen (sequenceSepBy_spec sep ps x [])
             (\<lambda>(s, rs). if isError s then returns s
                        else returns (updateParserResult s (Arr rs)))
       \<and> (calls_return sep ps x ts \<longrightarrow>
            sequenceSepBy sep ps x =
              Some (Inr (if isError (last ts) then last ts
                         else updateParserResult (last ts)
                                (Arr (map result (parser_states ts))))))
       \<and> sequenceSepBy sep [] x = Some (Inl TypeError)"
proof -
  note e = sequenceSepBy_eq_spec [OF assms]
  have c2: "calls_return sep ps x ts \<longrightarrow>
            sequenceSepBy sep ps x =
              Some (Inr (if isError (last ts) then last ts
                         else updateParserResult (last ts)
                                (Arr (map result (parser_states ts)))))"
    using sequenceSepBy_spec_calls_return [of sep ps x ts "[]"]
    by (simp add: e returns_def)
  have c3: "sequenceSepBy sep [] x = Some (Inl TypeError)"
    by (simp add: e)
  show ?thesis using e [of sep ps] c2 c3 by (intro conjI)
qed

theorem sequenceSepBy_total_on_nonempty_witness:
  "sequenceSepBy (str '','') [str ''a'', str ''b'', str ''c''] (initialState ''a,b,c'') =
     Some (Inr ((initialState ''a,b,c'')\<lparr>index := 5,
       result := Arr [Str ''a'', Str ''b'', Str ''c''],
       lastMatchedToken := Some ''c'', lastMatchedParserIndex := 5,
       lastMatchedTokenIndex := 5\<rparr>))
   \<and> sequenceSepBy (str '','') [] (initialState ''a,b,c'') = Some (Inl TypeError)"
proof -
  let ?x = "initialState ''a,b,c''"
  let ?t1 = "?x\<lparr>index := 1, result := Str ''a'', lastMatchedToken := Some ''a'',
    lastMatchedParserIndex := 1, lastMatchedTokenIndex := 1\<rparr>"
  let ?u1 = "?x\<lparr>index := 2, result := Str '','', lastMatchedToken := Some ''a'',
    lastMatchedParserIndex := 1, lastMatchedTokenIndex := 1\<rparr>"
  let ?t2 = "?x\<lparr>index := 3, result := Str ''b'', lastMatchedToken := Some ''b'',
    lastMatchedParserIndex := 3, lastMatchedTokenIndex := 3\<rparr>"
  let ?u2 = "?x\<lparr>index := 4, result := Str '','', lastMatchedToken := Some ''b'',
    lastMatchedParserIndex := 3, lastMatchedTokenIndex := 3\<rparr>"
  let ?t3 = "?x\<lparr>index := 5, result := Str ''c'', lastMatchedToken := Some ''c'',
    lastMatchedParserIndex := 5, lastMatchedTokenIndex := 5\<rparr>"
  have h: "\<not> isError ?x"
    by (simp add: initialState_def)
  have c: "calls_return (str '','') [str ''a'', str ''b'', str ''c''] ?x [?t1, ?u1, ?t2, ?u2, ?t3]"
    by (simp add: str_def state_update_defs host_defs)
  note t = sequenceSepBy_total_on_nonempty [OF h, of "str '',''" "[str ''a'', str ''b'', str ''c'']"
      "[?t1, ?u1, ?t2, ?u2, ?t3]"]
  have a: "sequenceSepBy (str '','') [str ''a'', str ''b'', str ''c''] ?x =
      Some (Inr (if isError (last [?t1, ?u1, ?t2, ?u2, ?t3]) then last [?t1, ?u1, ?t2, ?u2, ?t3]
                 else updateParserResult (last [?t1, ?u1, ?t2, ?u2, ?t3])
                        (Arr (map result (parser_states [?t1, ?u1, ?t2, ?u2, ?t3])))))"
    by (rule t [THEN conjunct2, THEN conjunct1, THEN mp, OF c])
  have a': "sequenceSepBy (str '','') [str ''a'', str ''b'', str ''c''] ?x =
     Some (Inr (?x\<lparr>index := 5, result := Arr [Str ''a'', Str ''b'', Str ''c''],
       lastMatchedToken := Some ''c'', lastMatchedParserIndex := 5,
       lastMatchedTokenIndex := 5\<rparr>))"
    using a by (simp add: state_update_defs initialState_def)
  have b: "sequenceSepBy (str '','') [] ?x = Some (Inl TypeError)"
    using sequenceSepBy_total_on_nonempty [OF h, of "str '',''" "[]"] by blast
  show ?thesis using a' b by (rule conjI)
qed

text \<open>
  A list that is not empty, on which \<^verbatim>\<open>sequenceSepBy\<close> returns no state: its one parser
  throws.
\<close>

theorem sequenceSepBy_nonempty_counterexample:
  "[sequenceSepBy (str '','') []] \<noteq> []
   \<and> \<not> isError (initialState ''a'')
   \<and> sequenceSepBy (str '','') [sequenceSepBy (str '','') []] (initialState ''a'') =
     Some (Inl TypeError)"
  by (simp add: sequenceSepBy_def sequenceSepBy_loop.simps initialState_def returns_def)

section \<open>sequenceOf\<close>

lemma sequenceOf_loop_append:
  "sequenceOf_loop (ps1 @ ps2) x rs =
     andThen (sequenceOf_loop ps1 x rs) (\<lambda>(s, rs'). sequenceOf_loop ps2 s rs')"
proof (induction ps1 arbitrary: x rs)
  case Nil
  show ?case by simp
next
  case (Cons p ps1)
  show ?case
    by (simp add: Cons.IH andThen_assoc)
qed

lemma sequenceOf_loop_steps_ok:
  "steps_ok ps x ss \<Longrightarrow>
     sequenceOf_loop ps x rs = Some (Inr (last (x # ss), rs @ map result ss))"
proof (induction ps x ss arbitrary: rs rule: steps_ok.induct)
  case (1 x)
  show ?case by (simp add: returns_def)
next
  case (2 p ps x s ss)
  then show ?case by simp
qed simp_all

lemma sequenceOf_loop_error:
  "isError e \<Longrightarrow> list_all passes_errors ps \<Longrightarrow>
     sequenceOf_loop ps e rs = Some (Inr (e, rs @ replicate (length ps) (result e)))"
proof (induction ps arbitrary: rs)
  case Nil
  show ?case by (simp add: returns_def)
next
  case (Cons p ps)
  then have "p e = Some (Inr e)" by (simp add: passes_errors_def)
  then show ?case using Cons by (simp add: replicate_app_Cons_same)
qed





section \<open>choice\<close>

lemma choice_loop_first_success:
  "all_fail ps x es \<Longrightarrow> p x = Some (Inr s) \<Longrightarrow> \<not> isError s \<Longrightarrow>
     choice_loop (ps @ p # qs) x tok idx pre = Some (Inr s)"
  by (induction ps x es arbitrary: tok idx pre rule: all_fail.induct) (simp_all add: returns_def)

lemma choice_loop_all_fail:
  "all_fail ps x es \<Longrightarrow>
     \<exists>tok' idx'.
       choice_loop ps x tok idx idx =
         Some (Inr (updateParserError
           (x\<lparr>lastMatchedToken := tok', lastMatchedTokenIndex := idx'\<rparr>)
           (''choice: unable to match any parser at index '' @ show_int (index x))))
       \<and> ((\<forall>e \<in> set es. \<not> (truthy (lastMatchedToken e) \<and> idx < lastMatchedTokenIndex e))
            \<and> tok' = tok \<and> idx' = idx
          \<or> (\<exists>as e bs. es = as @ e # bs \<and> truthy (lastMatchedToken e) \<and>
               idx < lastMatchedTokenIndex e \<and>
               tok' = lastMatchedToken e \<and> idx' = lastMatchedTokenIndex e \<and>
               (\<forall>a \<in> set as. truthy (lastMatchedToken a) \<longrightarrow>
                  lastMatchedTokenIndex a < lastMatchedTokenIndex e) \<and>
               (\<forall>b \<in> set bs. truthy (lastMatchedToken b) \<longrightarrow>
                  lastMatchedTokenIndex b \<le> lastMatchedTokenIndex e)))"
proof (induction ps x es arbitrary: tok idx rule: all_fail.induct)
  case (1 x)
  show ?case by (simp add: returns_def)
next
  case (2 p ps x e es)
  then have pe: "p x = Some (Inr e)" and err: "isError e" and rest: "all_fail ps x es"
    by simp_all
  show ?case
  proof (cases "truthy (lastMatchedToken e) \<and> idx < lastMatchedTokenIndex e")
    case True
    have step: "choice_loop (p # ps) x tok idx idx =
        choice_loop ps x (lastMatchedToken e) (lastMatchedTokenIndex e) (lastMatchedTokenIndex e)"
      using pe err True by simp
    obtain tok' idx' where
      r: "choice_loop ps x (lastMatchedToken e) (lastMatchedTokenIndex e) (lastMatchedTokenIndex e) =
         Some (Inr (updateParserError
           (x\<lparr>lastMatchedToken := tok', lastMatchedTokenIndex := idx'\<rparr>)
           (''choice: unable to match any parser at index '' @ show_int (index x))))"
      and d: "(\<forall>b \<in> set es. \<not> (truthy (lastMatchedToken b) \<and>
                 lastMatchedTokenIndex e < lastMatchedTokenIndex b))
            \<and> tok' = lastMatchedToken e \<and> idx' = lastMatchedTokenIndex e
          \<or> (\<exists>as f bs. es = as @ f # bs \<and> truthy (lastMatchedToken f) \<and>
               lastMatchedTokenIndex e < lastMatchedTokenIndex f \<and>
               tok' = lastMatchedToken f \<and> idx' = lastMatchedTokenIndex f \<and>
               (\<forall>a \<in> set as. truthy (lastMatchedToken a) \<longrightarrow>
                  lastMatchedTokenIndex a < lastMatchedTokenIndex f) \<and>
               (\<forall>b \<in> set bs. truthy (lastMatchedToken b) \<longrightarrow>
                  lastMatchedTokenIndex b \<le> lastMatchedTokenIndex f))"
      using "2.IH" [OF rest, of "lastMatchedToken e" "lastMatchedTokenIndex e"] by blast
    from d have "\<exists>as f bs. e # es = as @ f # bs \<and> truthy (lastMatchedToken f) \<and>
               idx < lastMatchedTokenIndex f \<and>
               tok' = lastMatchedToken f \<and> idx' = lastMatchedTokenIndex f \<and>
               (\<forall>a \<in> set as. truthy (lastMatchedToken a) \<longrightarrow>
                  lastMatchedTokenIndex a < lastMatchedTokenIndex f) \<and>
               (\<forall>b \<in> set bs. truthy (lastMatchedToken b) \<longrightarrow>
                  lastMatchedTokenIndex b \<le> lastMatchedTokenIndex f)"
    proof
      assume n: "(\<forall>b \<in> set es. \<not> (truthy (lastMatchedToken b) \<and>
                 lastMatchedTokenIndex e < lastMatchedTokenIndex b))
            \<and> tok' = lastMatchedToken e \<and> idx' = lastMatchedTokenIndex e"
      have "e # es = [] @ e # es" by simp
      moreover have "\<forall>b \<in> set es. truthy (lastMatchedToken b) \<longrightarrow>
                  lastMatchedTokenIndex b \<le> lastMatchedTokenIndex e"
        using n by (auto simp: not_less)
      ultimately show ?thesis using n True
        by (intro exI [of _ "[]"] exI [of _ e] exI [of _ es]) simp
    next
      assume "\<exists>as f bs. es = as @ f # bs \<and> truthy (lastMatchedToken f) \<and>
               lastMatchedTokenIndex e < lastMatchedTokenIndex f \<and>
               tok' = lastMatchedToken f \<and> idx' = lastMatchedTokenIndex f \<and>
               (\<forall>a \<in> set as. truthy (lastMatchedToken a) \<longrightarrow>
                  lastMatchedTokenIndex a < lastMatchedTokenIndex f) \<and>
               (\<forall>b \<in> set bs. truthy (lastMatchedToken b) \<longrightarrow>
                  lastMatchedTokenIndex b \<le> lastMatchedTokenIndex f)"
      then obtain as f bs where
        f: "es = as @ f # bs" "truthy (lastMatchedToken f)"
          "lastMatchedTokenIndex e < lastMatchedTokenIndex f"
          "tok' = lastMatchedToken f" "idx' = lastMatchedTokenIndex f"
          "\<forall>a \<in> set as. truthy (lastMatchedToken a) \<longrightarrow>
                  lastMatchedTokenIndex a < lastMatchedTokenIndex f"
          "\<forall>b \<in> set bs. truthy (lastMatchedToken b) \<longrightarrow>
                  lastMatchedTokenIndex b \<le> lastMatchedTokenIndex f"
        by blast
      have "e # es = (e # as) @ f # bs" using f(1) by simp
      moreover have "idx < lastMatchedTokenIndex f" using True f(3) by simp
      moreover have "\<forall>a \<in> set (e # as). truthy (lastMatchedToken a) \<longrightarrow>
                  lastMatchedTokenIndex a < lastMatchedTokenIndex f"
        using f(3) f(6) by simp
      ultimately show ?thesis using f(2) f(4) f(5) f(7)
        by (intro exI [of _ "e # as"] exI [of _ f] exI [of _ bs]) simp
    qed
    then have "(\<forall>b \<in> set (e # es). \<not> (truthy (lastMatchedToken b) \<and>
                 idx < lastMatchedTokenIndex b))
            \<and> tok' = tok \<and> idx' = idx
          \<or> (\<exists>as f bs. e # es = as @ f # bs \<and> truthy (lastMatchedToken f) \<and>
               idx < lastMatchedTokenIndex f \<and>
               tok' = lastMatchedToken f \<and> idx' = lastMatchedTokenIndex f \<and>
               (\<forall>a \<in> set as. truthy (lastMatchedToken a) \<longrightarrow>
                  lastMatchedTokenIndex a < lastMatchedTokenIndex f) \<and>
               (\<forall>b \<in> set bs. truthy (lastMatchedToken b) \<longrightarrow>
                  lastMatchedTokenIndex b \<le> lastMatchedTokenIndex f))"
      by (rule disjI2)
    moreover have "choice_loop (p # ps) x tok idx idx =
         Some (Inr (updateParserError
           (x\<lparr>lastMatchedToken := tok', lastMatchedTokenIndex := idx'\<rparr>)
           (''choice: unable to match any parser at index '' @ show_int (index x))))"
      by (simp only: step r)
    ultimately show ?thesis by blast
  next
    case False
    have step: "choice_loop (p # ps) x tok idx idx = choice_loop ps x tok idx idx"
      using pe err False by auto
    obtain tok' idx' where
      r: "choice_loop ps x tok idx idx =
         Some (Inr (updateParserError
           (x\<lparr>lastMatchedToken := tok', lastMatchedTokenIndex := idx'\<rparr>)
           (''choice: unable to match any parser at index '' @ show_int (index x))))"
      and d: "(\<forall>b \<in> set es. \<not> (truthy (lastMatchedToken b) \<and> idx < lastMatchedTokenIndex b))
            \<and> tok' = tok \<and> idx' = idx
          \<or> (\<exists>as f bs. es = as @ f # bs \<and> truthy (lastMatchedToken f) \<and>
               idx < lastMatchedTokenIndex f \<and>
               tok' = lastMatchedToken f \<and> idx' = lastMatchedTokenIndex f \<and>
               (\<forall>a \<in> set as. truthy (lastMatchedToken a) \<longrightarrow>
                  lastMatchedTokenIndex a < lastMatchedTokenIndex f) \<and>
               (\<forall>b \<in> set bs. truthy (lastMatchedToken b) \<longrightarrow>
                  lastMatchedTokenIndex b \<le> lastMatchedTokenIndex f))"
      using "2.IH" [OF rest, of tok idx] by blast
    from d have "(\<forall>b \<in> set (e # es). \<not> (truthy (lastMatchedToken b) \<and>
                 idx < lastMatchedTokenIndex b))
            \<and> tok' = tok \<and> idx' = idx
          \<or> (\<exists>as f bs. e # es = as @ f # bs \<and> truthy (lastMatchedToken f) \<and>
               idx < lastMatchedTokenIndex f \<and>
               tok' = lastMatchedToken f \<and> idx' = lastMatchedTokenIndex f \<and>
               (\<forall>a \<in> set as. truthy (lastMatchedToken a) \<longrightarrow>
                  lastMatchedTokenIndex a < lastMatchedTokenIndex f) \<and>
               (\<forall>b \<in> set bs. truthy (lastMatchedToken b) \<longrightarrow>
                  lastMatchedTokenIndex b \<le> lastMatchedTokenIndex f))"
    proof
      assume "(\<forall>b \<in> set es. \<not> (truthy (lastMatchedToken b) \<and> idx < lastMatchedTokenIndex b))
            \<and> tok' = tok \<and> idx' = idx"
      then show ?thesis using False by simp
    next
      assume "\<exists>as f bs. es = as @ f # bs \<and> truthy (lastMatchedToken f) \<and>
               idx < lastMatchedTokenIndex f \<and>
               tok' = lastMatchedToken f \<and> idx' = lastMatchedTokenIndex f \<and>
               (\<forall>a \<in> set as. truthy (lastMatchedToken a) \<longrightarrow>
                  lastMatchedTokenIndex a < lastMatchedTokenIndex f) \<and>
               (\<forall>b \<in> set bs. truthy (lastMatchedToken b) \<longrightarrow>
                  lastMatchedTokenIndex b \<le> lastMatchedTokenIndex f)"
      then obtain as f bs where
        f: "es = as @ f # bs" "truthy (lastMatchedToken f)"
          "idx < lastMatchedTokenIndex f"
          "tok' = lastMatchedToken f" "idx' = lastMatchedTokenIndex f"
          "\<forall>a \<in> set as. truthy (lastMatchedToken a) \<longrightarrow>
                  lastMatchedTokenIndex a < lastMatchedTokenIndex f"
          "\<forall>b \<in> set bs. truthy (lastMatchedToken b) \<longrightarrow>
                  lastMatchedTokenIndex b \<le> lastMatchedTokenIndex f"
        by blast
      have "e # es = (e # as) @ f # bs" using f(1) by simp
      moreover have "\<forall>a \<in> set (e # as). truthy (lastMatchedToken a) \<longrightarrow>
                  lastMatchedTokenIndex a < lastMatchedTokenIndex f"
        using False f(3) f(6) by auto
      ultimately have "\<exists>as f bs. e # es = as @ f # bs \<and> truthy (lastMatchedToken f) \<and>
               idx < lastMatchedTokenIndex f \<and>
               tok' = lastMatchedToken f \<and> idx' = lastMatchedTokenIndex f \<and>
               (\<forall>a \<in> set as. truthy (lastMatchedToken a) \<longrightarrow>
                  lastMatchedTokenIndex a < lastMatchedTokenIndex f) \<and>
               (\<forall>b \<in> set bs. truthy (lastMatchedToken b) \<longrightarrow>
                  lastMatchedTokenIndex b \<le> lastMatchedTokenIndex f)"
        using f(2) f(3) f(4) f(5) f(7)
        by (intro exI [of _ "e # as"] exI [of _ f] exI [of _ bs]) simp
      then show ?thesis by (rule disjI2)
    qed
    moreover have "choice_loop (p # ps) x tok idx idx =
         Some (Inr (updateParserError
           (x\<lparr>lastMatchedToken := tok', lastMatchedTokenIndex := idx'\<rparr>)
           (''choice: unable to match any parser at index '' @ show_int (index x))))"
      by (simp only: step r)
    ultimately show ?thesis by blast
  qed
qed simp_all

text \<open>
  Claim C1, as the code has it. On a state \<open>x\<close> that is not an error, \<^verbatim>\<open>choice\<close> runs
  each alternative on \<open>x\<close> itself. When the alternatives before one that succeeds all
  return error states, \<^verbatim>\<open>choice\<close> returns the state of that first success as it is. When
  every alternative returns an error state, \<^verbatim>\<open>choice\<close> returns \<open>x\<close> turned into an error
  with the message \<^verbatim>\<open>choice: unable to match any parser at index\<close> and \<open>x\<close>'s index, and
  with a token and a token index chosen as follows: only an alternative whose
  \<^verbatim>\<open>lastMatchedToken\<close> is a string that is not empty and whose \<^verbatim>\<open>lastMatchedTokenIndex\<close>
  is above 0 can be picked; the pick is the first such alternative with the greatest
  \<^verbatim>\<open>lastMatchedTokenIndex\<close> (strictly above every earlier one with a non-empty token,
  at least every later one); with no such alternative the token is \<^verbatim>\<open>null\<close> and the
  token index is 0.
\<close>

theorem choice_first_success_or_furthest_failure:
  assumes "\<not> isError x"
  shows "(all_fail ps x es \<and> p x = Some (Inr s) \<and> \<not> isError s \<longrightarrow>
            choice (ps @ p # qs) x = Some (Inr s))
       \<and> (all_fail ps x es \<longrightarrow>
            (\<exists>tok idx.
               choice ps x =
                 Some (Inr (updateParserError
                   (x\<lparr>lastMatchedToken := tok, lastMatchedTokenIndex := idx\<rparr>)
                   (''choice: unable to match any parser at index '' @ show_int (index x))))
               \<and> ((\<forall>e \<in> set es. \<not> (truthy (lastMatchedToken e) \<and> 0 < lastMatchedTokenIndex e))
                    \<and> tok = None \<and> idx = 0
                  \<or> (\<exists>as e bs. es = as @ e # bs \<and> truthy (lastMatchedToken e) \<and>
                       0 < lastMatchedTokenIndex e \<and>
                       tok = lastMatchedToken e \<and> idx = lastMatchedTokenIndex e \<and>
                       (\<forall>a \<in> set as. truthy (lastMatchedToken a) \<longrightarrow>
                          lastMatchedTokenIndex a < lastMatchedTokenIndex e) \<and>
                       (\<forall>b \<in> set bs. truthy (lastMatchedToken b) \<longrightarrow>
                          lastMatchedTokenIndex b \<le> lastMatchedTokenIndex e)))))"
proof (intro conjI impI)
  assume "all_fail ps x es \<and> p x = Some (Inr s) \<and> \<not> isError s"
  then show "choice (ps @ p # qs) x = Some (Inr s)"
    using assms choice_loop_first_success [of ps x es p s qs None 0 0]
    by (simp add: choice_def)
next
  assume "all_fail ps x es"
  then show "\<exists>tok idx.
      choice ps x =
        Some (Inr (updateParserError
          (x\<lparr>lastMatchedToken := tok, lastMatchedTokenIndex := idx\<rparr>)
          (''choice: unable to match any parser at index '' @ show_int (index x))))
      \<and> ((\<forall>e \<in> set es. \<not> (truthy (lastMatchedToken e) \<and> 0 < lastMatchedTokenIndex e))
           \<and> tok = None \<and> idx = 0
         \<or> (\<exists>as e bs. es = as @ e # bs \<and> truthy (lastMatchedToken e) \<and>
              0 < lastMatchedTokenIndex e \<and>
              tok = lastMatchedToken e \<and> idx = lastMatchedTokenIndex e \<and>
              (\<forall>a \<in> set as. truthy (lastMatchedToken a) \<longrightarrow>
                 lastMatchedTokenIndex a < lastMatchedTokenIndex e) \<and>
              (\<forall>b \<in> set bs. truthy (lastMatchedToken b) \<longrightarrow>
                 lastMatchedTokenIndex b \<le> lastMatchedTokenIndex e)))"
    using assms choice_loop_all_fail [of ps x es None 0]
    by (simp only: choice_def if_False)
qed

theorem choice_first_success_or_furthest_failure_witness:
  "choice [str ''a'', str ''b'', str ''c''] (initialState ''b'') =
     Some (Inr ((initialState ''b'')\<lparr>index := 1, result := Str ''b'',
       lastMatchedToken := Some ''b'', lastMatchedParserIndex := 1,
       lastMatchedTokenIndex := 1\<rparr>))
   \<and> choice [sequenceOf [str ''a'', str ''b''], sequenceOf [str ''a'', str ''c'', str ''d'']]
       (initialState ''acx'') =
     Some (Inr (updateParserError
       ((initialState ''acx'')\<lparr>lastMatchedToken := Some ''c'', lastMatchedTokenIndex := 2\<rparr>)
       ''choice: unable to match any parser at index 0''))"
proof -
  let ?x = "initialState ''b''"
  let ?e = "updateParserError ?x ''Tried to match a but got b''"
  let ?s = "?x\<lparr>index := 1, result := Str ''b'', lastMatchedToken := Some ''b'',
    lastMatchedParserIndex := 1, lastMatchedTokenIndex := 1\<rparr>"
  let ?y = "initialState ''acx''"
  let ?e1 = "updateParserError (?y\<lparr>index := 1, result := Str ''a'',
    lastMatchedToken := Some ''a'', lastMatchedParserIndex := 1,
    lastMatchedTokenIndex := 1\<rparr>) ''Tried to match b but got cx''"
  let ?e2 = "updateParserError (?y\<lparr>index := 2, result := Str ''c'',
    lastMatchedToken := Some ''c'', lastMatchedParserIndex := 2,
    lastMatchedTokenIndex := 2\<rparr>) ''Tried to match d but got x''"
  let ?alts = "[sequenceOf [str ''a'', str ''b''], sequenceOf [str ''a'', str ''c'', str ''d'']]"
  have hx: "\<not> isError ?x" and hy: "\<not> isError ?y"
    by (simp_all add: initialState_def)
  have f1: "all_fail [str ''a''] ?x [?e] \<and> str ''b'' ?x = Some (Inr ?s) \<and> \<not> isError ?s"
    by (simp add: str_def state_update_defs host_defs)
  note t1 = choice_first_success_or_furthest_failure [OF hx, of "[str ''a'']" "[?e]" "str ''b''"
      ?s "[str ''c'']"]
  have a: "choice ([str ''a''] @ str ''b'' # [str ''c'']) ?x = Some (Inr ?s)"
    by (rule t1 [THEN conjunct1, THEN mp, OF f1])
  have a': "choice [str ''a'', str ''b'', str ''c''] ?x = Some (Inr ?s)"
    using a by (simp only: append_Cons append_Nil)
  have f2: "all_fail ?alts ?y [?e1, ?e2]"
    by (simp add: sequenceOf_def str_def state_update_defs host_defs)
  note t2 = choice_first_success_or_furthest_failure [OF hy, of ?alts "[?e1, ?e2]"]
  have c: "\<exists>tok idx. choice ?alts ?y =
         Some (Inr (updateParserError
           (?y\<lparr>lastMatchedToken := tok, lastMatchedTokenIndex := idx\<rparr>)
           (''choice: unable to match any parser at index '' @ show_int (index ?y))))"
    using t2 [THEN conjunct2, THEN mp, OF f2] by (elim exE conjE) (intro exI)
  have ev: "choice ?alts ?y =
     Some (Inr (updateParserError
       (?y\<lparr>lastMatchedToken := Some ''c'', lastMatchedTokenIndex := 2\<rparr>)
       ''choice: unable to match any parser at index 0''))"
    by (simp add: choice_def sequenceOf_def str_def state_update_defs host_defs)
  show ?thesis using a' ev by (rule conjI)
qed

theorem choice_furthest_failure_counterexample:
  "str ''a'' (initialState ''ab'') =
     Some (Inr ((initialState ''ab'')\<lparr>index := 1, result := Str ''a'',
       lastMatchedToken := Some ''a'', lastMatchedParserIndex := 1,
       lastMatchedTokenIndex := 1\<rparr>))
   \<and> eat (rx_char ''/b/'' CHR ''b'')
       ((initialState ''ab'')\<lparr>index := 1, result := Str ''a'',
         lastMatchedToken := Some ''a'', lastMatchedParserIndex := 1,
         lastMatchedTokenIndex := 1\<rparr>) =
     Some (Inr ((initialState ''ab'')\<lparr>index := 1, result := Str [],
       lastMatchedToken := Some [], lastMatchedParserIndex := 1,
       lastMatchedTokenIndex := 1\<rparr>))
   \<and> str ''c''
       ((initialState ''ab'')\<lparr>index := 1, result := Str [],
         lastMatchedToken := Some [], lastMatchedParserIndex := 1,
         lastMatchedTokenIndex := 1\<rparr>) =
     Some (Inr ((initialState ''ab'')\<lparr>index := 1, result := Str [], isError := True,
       error := Some ''Tried to match c but got b'',
       errorChain := [''Tried to match c but got b''],
       lastMatchedToken := Some [], lastMatchedParserIndex := 1,
       lastMatchedTokenIndex := 1\<rparr>))
   \<and> choice [str ''c'']
       ((initialState ''ab'')\<lparr>index := 1, result := Str [],
         lastMatchedToken := Some [], lastMatchedParserIndex := 1,
         lastMatchedTokenIndex := 1\<rparr>) =
     Some (Inr ((initialState ''ab'')\<lparr>index := 1, result := Str [], isError := True,
       error := Some ''choice: unable to match any parser at index 1'',
       errorChain := [''choice: unable to match any parser at index 1''],
       lastMatchedToken := None, lastMatchedParserIndex := 1,
       lastMatchedTokenIndex := 0\<rparr>))"
  by (simp add: choice_def str_def eat_def rx_char_def state_update_defs host_defs)

section \<open>many and manyOne\<close>

lemma many_loop_nonerror:
  assumes "many_loop p rs ns ls = Some y"
  shows "\<forall>r. y = Inr r \<longrightarrow> \<not> isError ls \<longrightarrow> \<not> isError r"
proof (rule many_loop.raw_induct
    [where P = "\<lambda>p rs ns ls y. \<forall>r. y = Inr r \<longrightarrow> \<not> isError ls \<longrightarrow> \<not> isError r", OF _ assms],
    goal_cases)
  case (1 f p rs ns ls y)
  from 1(2) show ?case
    by (auto simp: andThen_eq_Some returns_def updateParserResult_def
        split: if_splits dest: 1(1))
qed

lemma manyOne_loop_imp_many_loop:
  assumes "manyOne_loop p x rs s = Some y"
  shows "rs \<noteq> [] \<longrightarrow> many_loop p rs s s = Some y"
proof (rule manyOne_loop.raw_induct
    [where P = "\<lambda>p x rs s y. rs \<noteq> [] \<longrightarrow> many_loop p rs s s = Some y", OF _ assms],
    goal_cases)
  case (1 f p x rs s y)
  show ?case
  proof
    assume ne: "rs \<noteq> []"
    from 1(2) consider
      (throws) err where "p s = Some (Inl err)" "y = Inl err"
      | (ok) l where "p s = Some (Inr l)" "\<not> isError l" "f p x (rs @ [result l]) l = Some y"
      | (fails) l where "p s = Some (Inr l)" "isError l"
          "y = Inr (updateParserResult
             (s\<lparr>errorChain := errorChain l, lastMatchedToken := lastMatchedToken l,
                lastMatchedTokenIndex := lastMatchedTokenIndex l\<rparr>) (Arr rs))"
      using ne by (auto simp: andThen_eq_Some returns_def split: if_splits)
    then show "many_loop p rs s s = Some y"
    proof cases
      case throws
      then show ?thesis by (subst many_loop.simps) simp
    next
      case ok
      then have "many_loop p (rs @ [result l]) l l = Some y"
        using 1(1) by simp
      then show ?thesis using ok by (subst many_loop.simps) simp
    next
      case fails
      then show ?thesis by (subst many_loop.simps) (simp add: returns_def)
    qed
  qed
qed

lemma many_loop_imp_manyOne_loop:
  assumes "many_loop p rs s ls = Some y"
  shows "rs \<noteq> [] \<longrightarrow> ls = s \<longrightarrow> manyOne_loop p x rs s = Some y"
proof (rule many_loop.raw_induct
    [where P = "\<lambda>p rs s ls y. rs \<noteq> [] \<longrightarrow> ls = s \<longrightarrow> manyOne_loop p x rs s = Some y",
      OF _ assms],
    goal_cases)
  case (1 f p rs s ls y)
  show ?case
  proof (intro impI)
    assume ne: "rs \<noteq> []" and eq: "ls = s"
    from 1(2) consider
      (throws) err where "p s = Some (Inl err)" "y = Inl err"
      | (ok) l where "p s = Some (Inr l)" "\<not> isError l" "f p (rs @ [result l]) l l = Some y"
      | (fails) l where "p s = Some (Inr l)" "isError l"
          "y = Inr (updateParserResult
             (s\<lparr>errorChain := errorChain l, lastMatchedToken := lastMatchedToken l,
                lastMatchedTokenIndex := lastMatchedTokenIndex l\<rparr>) (Arr rs))"
      using eq by (auto simp: andThen_eq_Some returns_def split: if_splits)
    then show "manyOne_loop p x rs s = Some y"
    proof cases
      case throws
      then show ?thesis by (subst manyOne_loop.simps) simp
    next
      case ok
      then have "manyOne_loop p x (rs @ [result l]) l = Some y"
        using 1(1) by simp
      then show ?thesis using ok by (subst manyOne_loop.simps) simp
    next
      case fails
      then show ?thesis using ne by (subst manyOne_loop.simps) (simp add: returns_def)
    qed
  qed
qed

lemma manyOne_loop_eq_many_loop:
  assumes "rs \<noteq> []"
  shows "manyOne_loop p x rs s = many_loop p rs s s"
proof (cases "manyOne_loop p x rs s")
  case None
  show ?thesis
  proof (cases "many_loop p rs s s")
    case None
    with \<open>manyOne_loop p x rs s = None\<close> show ?thesis by simp
  next
    case (Some y)
    then have "manyOne_loop p x rs s = Some y"
      using many_loop_imp_manyOne_loop assms by blast
    with None show ?thesis by simp
  qed
next
  case (Some y)
  then have "many_loop p rs s s = Some y"
    using manyOne_loop_imp_many_loop assms by blast
  with Some show ?thesis by simp
qed

text \<open>
  Claim C6. On a state \<open>x\<close> that is not an error: when the first application of \<open>p\<close>
  returns an error state, \<^verbatim>\<open>manyOne(p)\<close> returns an error state with the index of \<open>x\<close>
  and the message \<^verbatim>\<open>manyOne: Unable to match any input using parser at index\<close> followed
  by that index; in every other case \<^verbatim>\<open>manyOne(p)\<close> does exactly what \<^verbatim>\<open>many(p)\<close> does on
  \<open>x\<close>; and \<^verbatim>\<open>manyOne(p)\<close> returns an error state only when the first application of
  \<open>p\<close> returned one.
\<close>

theorem manyOne_fails_only_on_first_attempt:
  assumes "\<not> isError x"
  shows "(p x = Some (Inr e) \<and> isError e \<longrightarrow>
            manyOne p x =
              Some (Inr (updateParserError
                (x\<lparr>errorChain := errorChain e, lastMatchedToken := lastMatchedToken e,
                   lastMatchedTokenIndex := lastMatchedTokenIndex e\<rparr>)
                (''manyOne: Unable to match any input using parser at index '' @
                 show_int (index x))))
            \<and> index (updateParserError
                (x\<lparr>errorChain := errorChain e, lastMatchedToken := lastMatchedToken e,
                   lastMatchedTokenIndex := lastMatchedTokenIndex e\<rparr>)
                (''manyOne: Unable to match any input using parser at index '' @
                 show_int (index x))) = index x)
       \<and> (\<not> (\<exists>e'. p x = Some (Inr e') \<and> isError e') \<longrightarrow> manyOne p x = many p x)
       \<and> (manyOne p x = Some (Inr r) \<and> isError r \<longrightarrow> (\<exists>e'. p x = Some (Inr e') \<and> isError e'))"
proof (intro conjI impI)
  assume "p x = Some (Inr e) \<and> isError e"
  then show "manyOne p x =
      Some (Inr (updateParserError
        (x\<lparr>errorChain := errorChain e, lastMatchedToken := lastMatchedToken e,
           lastMatchedTokenIndex := lastMatchedTokenIndex e\<rparr>)
        (''manyOne: Unable to match any input using parser at index '' @
         show_int (index x))))"
    using assms by (subst manyOne_def, subst manyOne_loop.simps) (simp add: returns_def)
next
  show "index (updateParserError
        (x\<lparr>errorChain := errorChain e, lastMatchedToken := lastMatchedToken e,
           lastMatchedTokenIndex := lastMatchedTokenIndex e\<rparr>)
        (''manyOne: Unable to match any input using parser at index '' @
         show_int (index x))) = index x"
    by (simp add: updateParserError_def)
next
  assume nf: "\<not> (\<exists>e'. p x = Some (Inr e') \<and> isError e')"
  show "manyOne p x = many p x"
  proof (cases "p x" rule: outcome_cases)
    case Diverges
    then show ?thesis using assms
      by (subst manyOne_def, subst manyOne_loop.simps, subst many_def, subst many_loop.simps) simp
  next
    case (Throws err)
    then show ?thesis using assms
      by (subst manyOne_def, subst manyOne_loop.simps, subst many_def, subst many_loop.simps) simp
  next
    case (Returns s1)
    then have ok: "\<not> isError s1" using nf by simp
    have "manyOne p x = manyOne_loop p x [result s1] s1"
      using assms Returns ok by (subst manyOne_def, subst manyOne_loop.simps) simp
    moreover have "many p x = many_loop p [result s1] s1 s1"
      using assms Returns ok by (subst many_def, subst many_loop.simps) simp
    ultimately show ?thesis
      using manyOne_loop_eq_many_loop [of "[result s1]" p x s1] by simp
  qed
next
  assume a: "manyOne p x = Some (Inr r) \<and> isError r"
  show "\<exists>e'. p x = Some (Inr e') \<and> isError e'"
  proof (rule ccontr)
    assume nf: "\<not> (\<exists>e'. p x = Some (Inr e') \<and> isError e')"
    have "manyOne p x = many p x"
    proof (cases "p x" rule: outcome_cases)
      case Diverges
      then show ?thesis using assms
        by (subst manyOne_def, subst manyOne_loop.simps, subst many_def, subst many_loop.simps)
          simp
    next
      case (Throws err)
      then show ?thesis using assms
        by (subst manyOne_def, subst manyOne_loop.simps, subst many_def, subst many_loop.simps)
          simp
    next
      case (Returns s1)
      then have ok: "\<not> isError s1" using nf by simp
      have "manyOne p x = manyOne_loop p x [result s1] s1"
        using assms Returns ok by (subst manyOne_def, subst manyOne_loop.simps) simp
      moreover have "many p x = many_loop p [result s1] s1 s1"
        using assms Returns ok by (subst many_def, subst many_loop.simps) simp
      ultimately show ?thesis
        using manyOne_loop_eq_many_loop [of "[result s1]" p x s1] by simp
    qed
    then have "many_loop p [] x x = Some (Inr r)"
      using a assms by (simp add: many_def)
    then have "\<not> isError r"
      using many_loop_nonerror assms by blast
    with a show False by simp
  qed
qed

theorem manyOne_fails_only_on_first_attempt_witness:
  "manyOne (str ''a'') (initialState ''b'') =
     Some (Inr (updateParserError
       ((initialState ''b'')\<lparr>errorChain := [''Tried to match a but got b'']\<rparr>)
       ''manyOne: Unable to match any input using parser at index 0''))
   \<and> (\<exists>e'. str ''a'' (initialState ''b'') = Some (Inr e') \<and> isError e')
   \<and> manyOne (str ''a'') (initialState ''aab'') = many (str ''a'') (initialState ''aab'')
   \<and> many (str ''a'') (initialState ''aab'') =
     Some (Inr ((initialState ''aab'')\<lparr>index := 2, result := Arr [Str ''a'', Str ''a''],
       errorChain := [''Tried to match a but got b''],
       lastMatchedToken := Some ''a'', lastMatchedParserIndex := 2,
       lastMatchedTokenIndex := 2\<rparr>))"
proof -
  let ?x = "initialState ''b''"
  let ?e = "updateParserError ?x ''Tried to match a but got b''"
  let ?y = "initialState ''aab''"
  have hx: "\<not> isError ?x" and hy: "\<not> isError ?y"
    by (simp_all add: initialState_def)
  have f: "str ''a'' ?x = Some (Inr ?e) \<and> isError ?e"
    by (simp add: str_def state_update_defs host_defs)
  note t1 = manyOne_fails_only_on_first_attempt [OF hx, of "str ''a''" ?e]
  have a: "manyOne (str ''a'') ?x =
      Some (Inr (updateParserError
        (?x\<lparr>errorChain := errorChain ?e, lastMatchedToken := lastMatchedToken ?e,
           lastMatchedTokenIndex := lastMatchedTokenIndex ?e\<rparr>)
        (''manyOne: Unable to match any input using parser at index '' @ show_int (index ?x))))"
    using t1 [THEN conjunct1, THEN mp, OF f] by (rule conjunct1)
  have a': "manyOne (str ''a'') ?x =
     Some (Inr (updateParserError (?x\<lparr>errorChain := [''Tried to match a but got b'']\<rparr>)
       ''manyOne: Unable to match any input using parser at index 0''))"
    using a by (simp add: state_update_defs host_defs)
  have g: "\<not> (\<exists>e'. str ''a'' ?y = Some (Inr e') \<and> isError e')"
    by (simp add: str_def state_update_defs host_defs)
  note t2 = manyOne_fails_only_on_first_attempt [OF hy, of "str ''a''"]
  have b: "manyOne (str ''a'') ?y = many (str ''a'') ?y"
    using t2 [THEN conjunct2, THEN conjunct1, THEN mp, OF g] .
  have c: "many (str ''a'') ?y =
     Some (Inr (?y\<lparr>index := 2, result := Arr [Str ''a'', Str ''a''],
       errorChain := [''Tried to match a but got b''],
       lastMatchedToken := Some ''a'', lastMatchedParserIndex := 2,
       lastMatchedTokenIndex := 2\<rparr>))"
    by (simp add: many_def many_loop.simps str_def state_update_defs host_defs)
  have ie: "isError (updateParserError (?x\<lparr>errorChain := [''Tried to match a but got b'']\<rparr>)
       ''manyOne: Unable to match any input using parser at index 0'')"
    by (simp add: updateParserError_def)
  have d: "\<exists>e'. str ''a'' ?x = Some (Inr e') \<and> isError e'"
    using t1 [THEN conjunct2, THEN conjunct2, THEN mp, OF conjI [OF a' ie]] .
  show ?thesis using a' d b c by (intro conjI)
qed

lemma many_loop_trace:
  "steps_ok (replicate (length ss) p) s ss \<Longrightarrow>
   p (last (s # ss)) = Some (Inr e) \<Longrightarrow> isError e \<Longrightarrow>
   many_loop p rs s s =
     Some (Inr (updateParserResult
       ((last (s # ss))\<lparr>errorChain := errorChain e,
          lastMatchedToken := lastMatchedToken e,
          lastMatchedTokenIndex := lastMatchedTokenIndex e\<rparr>)
       (Arr (rs @ map result ss))))"
proof (induction ss arbitrary: s rs)
  case Nil
  then show ?case by (subst many_loop.simps) (simp add: returns_def)
next
  case (Cons s1 ss)
  have s1: "p s = Some (Inr s1)" "\<not> isError s1"
    and ok: "steps_ok (replicate (length ss) p) s1 ss"
    using Cons.prems(1) by simp_all
  have f: "p (last (s1 # ss)) = Some (Inr e)" using Cons.prems(2) by simp
  have "many_loop p rs s s = many_loop p (rs @ [result s1]) s1 s1"
    using s1 by (subst many_loop.simps) simp
  also have "\<dots> =
     Some (Inr (updateParserResult
       ((last (s1 # ss))\<lparr>errorChain := errorChain e,
          lastMatchedToken := lastMatchedToken e,
          lastMatchedTokenIndex := lastMatchedTokenIndex e\<rparr>)
       (Arr ((rs @ [result s1]) @ map result ss))))"
    by (rule Cons.IH [OF ok f Cons.prems(3)])
  finally show ?case by simp
qed

lemma many_loop_returns_trace:
  assumes "many_loop p rs ns ls = Some y"
  shows "ls = ns \<longrightarrow> (\<forall>r. y = Inr r \<longrightarrow>
    (\<exists>ss e. steps_ok (replicate (length ss) p) ns ss \<and>
       p (last (ns # ss)) = Some (Inr e) \<and> isError e \<and>
       r = updateParserResult
             ((last (ns # ss))\<lparr>errorChain := errorChain e,
                lastMatchedToken := lastMatchedToken e,
                lastMatchedTokenIndex := lastMatchedTokenIndex e\<rparr>)
             (Arr (rs @ map result ss))))"
proof (rule many_loop.raw_induct
    [where P = "\<lambda>p rs ns ls y. ls = ns \<longrightarrow> (\<forall>r. y = Inr r \<longrightarrow>
      (\<exists>ss e. steps_ok (replicate (length ss) p) ns ss \<and>
         p (last (ns # ss)) = Some (Inr e) \<and> isError e \<and>
         r = updateParserResult
               ((last (ns # ss))\<lparr>errorChain := errorChain e,
                  lastMatchedToken := lastMatchedToken e,
                  lastMatchedTokenIndex := lastMatchedTokenIndex e\<rparr>)
               (Arr (rs @ map result ss))))", OF _ assms], goal_cases)
  case (1 f p rs ns ls y)
  show ?case
  proof (intro impI allI)
    fix r
    assume ls: "ls = ns" and y: "y = Inr r"
    from 1(2) y obtain t where t: "p ns = Some (Inr t)"
      and k: "(if \<not> isError t then f p (rs @ [result t]) t t
               else returns (updateParserResult
                 (ls\<lparr>errorChain := errorChain t, lastMatchedToken := lastMatchedToken t,
                    lastMatchedTokenIndex := lastMatchedTokenIndex t\<rparr>)
                 (Arr rs))) = Some (Inr r)"
      by (auto simp: andThen_eq_Some)
    show "\<exists>ss e. steps_ok (replicate (length ss) p) ns ss \<and>
       p (last (ns # ss)) = Some (Inr e) \<and> isError e \<and>
       r = updateParserResult
             ((last (ns # ss))\<lparr>errorChain := errorChain e,
                lastMatchedToken := lastMatchedToken e,
                lastMatchedTokenIndex := lastMatchedTokenIndex e\<rparr>)
             (Arr (rs @ map result ss))"
    proof (cases "isError t")
      case True
      then have "r = updateParserResult
             ((last (ns # []))\<lparr>errorChain := errorChain t,
                lastMatchedToken := lastMatchedToken t,
                lastMatchedTokenIndex := lastMatchedTokenIndex t\<rparr>)
             (Arr (rs @ map result []))"
        using k ls by (simp add: returns_def)
      moreover have "steps_ok (replicate (length ([] :: state list)) p) ns []" by simp
      moreover have "p (last (ns # [])) = Some (Inr t)" using t by simp
      ultimately show ?thesis using True by blast
    next
      case False
      then have "f p (rs @ [result t]) t t = Some (Inr r)" using k by simp
      then obtain ss e where ok: "steps_ok (replicate (length ss) p) t ss"
        and e: "p (last (t # ss)) = Some (Inr e)" "isError e"
        and r: "r = updateParserResult
             ((last (t # ss))\<lparr>errorChain := errorChain e,
                lastMatchedToken := lastMatchedToken e,
                lastMatchedTokenIndex := lastMatchedTokenIndex e\<rparr>)
             (Arr ((rs @ [result t]) @ map result ss))"
        using 1(1) by blast
      have "steps_ok (replicate (length (t # ss)) p) ns (t # ss)"
        using ok t False by simp
      moreover have "p (last (ns # t # ss)) = Some (Inr e)" using e(1) by simp
      moreover have "r = updateParserResult
             ((last (ns # t # ss))\<lparr>errorChain := errorChain e,
                lastMatchedToken := lastMatchedToken e,
                lastMatchedTokenIndex := lastMatchedTokenIndex e\<rparr>)
             (Arr (rs @ map result (t # ss)))"
        using r by simp
      ultimately show ?thesis using e(2) by blast
    qed
  qed
qed

lemma steps_ok_last_nonerror:
  "steps_ok ps x ss \<Longrightarrow> \<not> isError x \<Longrightarrow> \<not> isError (last (x # ss))"
  by (induction ps x ss rule: steps_ok.induct) auto

lemma many_loop_endless_successes:
  assumes chain: "\<forall>n. p (f n) = Some (Inr (f (Suc n))) \<and> \<not> isError (f (Suc n))"
    and ret: "many_loop q rs ns ls = Some y"
  shows "q = p \<longrightarrow> (\<forall>n. ns \<noteq> f n)"
proof (rule many_loop.raw_induct
    [where P = "\<lambda>q rs ns ls y. q = p \<longrightarrow> (\<forall>n. ns \<noteq> f n)", OF _ ret], goal_cases)
  case (1 g q rs ns ls y)
  show ?case
  proof (intro impI allI notI)
    fix n
    assume q: "q = p" and ns: "ns = f n"
    have step: "p (f n) = Some (Inr (f (Suc n)))" and ok: "\<not> isError (f (Suc n))"
      using chain by simp_all
    have "g p (rs @ [result (f (Suc n))]) (f (Suc n)) (f (Suc n)) = Some y"
      using 1(2) q ns step ok by simp
    then have "\<forall>m. f (Suc n) \<noteq> f m"
      using 1(1) by blast
    then show False by blast
  qed
qed

lemma many_endless_successes:
  assumes "\<not> isError (f 0)"
    and "\<forall>n. p (f n) = Some (Inr (f (Suc n))) \<and> \<not> isError (f (Suc n))"
  shows "many p (f 0) = None"
proof (cases "many_loop p [] (f 0) (f 0)")
  case None
  then show ?thesis using assms(1) by (simp add: many_def)
next
  case (Some y)
  then have "\<forall>n. f 0 \<noteq> f n"
    using many_loop_endless_successes [OF assms(2)] by blast
  then show ?thesis by blast
qed

text \<open>
  Claim C3, as the code has it. Let \<open>x\<close> be a state that is not an error, and apply \<open>p\<close>
  again and again, each time to the state the application before returned. When the
  first \<open>n\<close> applications (\<open>n\<close> may be zero) return the non-error states \<open>ss\<close> and the
  next one returns an error state \<open>e\<close>, \<^verbatim>\<open>many(p)\<close> returns the last of these successes
  (\<open>x\<close> itself when there is none) with the list of the results of \<open>ss\<close> as result and
  with \<^verbatim>\<open>errorChain\<close>, \<^verbatim>\<open>lastMatchedToken\<close> and \<^verbatim>\<open>lastMatchedTokenIndex\<close> taken from \<open>e\<close>;
  the returned state is not an error and has the index and \<^verbatim>\<open>lastMatchedParserIndex\<close>
  of the last success. Every state that \<^verbatim>\<open>many(p)\<close> returns arises in this way. When
  the applications never stop succeeding, \<^verbatim>\<open>many(p)\<close> does not return.
\<close>

theorem many_collects_until_first_failure:
  assumes "\<not> isError x"
  shows "(p x = Some (Inr e0) \<and> isError e0 \<longrightarrow>
            many p x =
              Some (Inr (x\<lparr>result := Arr [], errorChain := errorChain e0,
                lastMatchedToken := lastMatchedToken e0,
                lastMatchedTokenIndex := lastMatchedTokenIndex e0\<rparr>)))
       \<and> (steps_ok (replicate (length ss) p) x ss \<and>
          p (last (x # ss)) = Some (Inr e) \<and> isError e \<longrightarrow>
            (\<exists>r. many p x = Some (Inr r) \<and>
               r = updateParserResult
                     ((last (x # ss))\<lparr>errorChain := errorChain e,
                        lastMatchedToken := lastMatchedToken e,
                        lastMatchedTokenIndex := lastMatchedTokenIndex e\<rparr>)
                     (Arr (map result ss)) \<and>
               \<not> isError r \<and> index r = index (last (x # ss)) \<and>
               lastMatchedParserIndex r = lastMatchedParserIndex (last (x # ss))))
       \<and> (many p x = Some (Inr r') \<longrightarrow>
            \<not> isError r' \<and>
            (\<exists>ss' e'. steps_ok (replicate (length ss') p) x ss' \<and>
               p (last (x # ss')) = Some (Inr e') \<and> isError e' \<and>
               r' = updateParserResult
                      ((last (x # ss'))\<lparr>errorChain := errorChain e',
                         lastMatchedToken := lastMatchedToken e',
                         lastMatchedTokenIndex := lastMatchedTokenIndex e'\<rparr>)
                      (Arr (map result ss'))))
       \<and> (f 0 = x \<and> (\<forall>n. p (f n) = Some (Inr (f (Suc n))) \<and> \<not> isError (f (Suc n))) \<longrightarrow>
            many p x = None)"
proof -
  have c1: "p x = Some (Inr e0) \<and> isError e0 \<longrightarrow>
      many p x =
        Some (Inr (x\<lparr>result := Arr [], errorChain := errorChain e0,
          lastMatchedToken := lastMatchedToken e0,
          lastMatchedTokenIndex := lastMatchedTokenIndex e0\<rparr>))"
    using assms
    by (subst many_def, subst many_loop.simps) (simp add: returns_def updateParserResult_def)
  have c2: "steps_ok (replicate (length ss) p) x ss \<and>
      p (last (x # ss)) = Some (Inr e) \<and> isError e \<longrightarrow>
        (\<exists>r. many p x = Some (Inr r) \<and>
           r = updateParserResult
                 ((last (x # ss))\<lparr>errorChain := errorChain e,
                    lastMatchedToken := lastMatchedToken e,
                    lastMatchedTokenIndex := lastMatchedTokenIndex e\<rparr>)
                 (Arr (map result ss)) \<and>
           \<not> isError r \<and> index r = index (last (x # ss)) \<and>
           lastMatchedParserIndex r = lastMatchedParserIndex (last (x # ss)))"
  proof
    assume a: "steps_ok (replicate (length ss) p) x ss \<and>
      p (last (x # ss)) = Some (Inr e) \<and> isError e"
    let ?r = "updateParserResult
          ((last (x # ss))\<lparr>errorChain := errorChain e,
             lastMatchedToken := lastMatchedToken e,
             lastMatchedTokenIndex := lastMatchedTokenIndex e\<rparr>)
          (Arr (map result ss))"
    have ok: "steps_ok (replicate (length ss) p) x ss"
      and fl: "p (last (x # ss)) = Some (Inr e)" and ie: "isError e"
      using a by simp_all
    have "many_loop p [] x x = Some (Inr ?r)"
      using many_loop_trace [OF ok fl ie, of "[]"] by simp
    then have "many p x = Some (Inr ?r)"
      using assms by (simp add: many_def)
    moreover have "\<not> isError ?r"
      using steps_ok_last_nonerror [OF ok assms] by (simp add: updateParserResult_def)
    moreover have "index ?r = index (last (x # ss))"
      and "lastMatchedParserIndex ?r = lastMatchedParserIndex (last (x # ss))"
      by (simp_all add: updateParserResult_def)
    ultimately show "\<exists>r. many p x = Some (Inr r) \<and>
           r = updateParserResult
                 ((last (x # ss))\<lparr>errorChain := errorChain e,
                    lastMatchedToken := lastMatchedToken e,
                    lastMatchedTokenIndex := lastMatchedTokenIndex e\<rparr>)
                 (Arr (map result ss)) \<and>
           \<not> isError r \<and> index r = index (last (x # ss)) \<and>
           lastMatchedParserIndex r = lastMatchedParserIndex (last (x # ss))"
      by blast
  qed
  have c3: "many p x = Some (Inr r') \<longrightarrow>
      \<not> isError r' \<and>
      (\<exists>ss' e'. steps_ok (replicate (length ss') p) x ss' \<and>
         p (last (x # ss')) = Some (Inr e') \<and> isError e' \<and>
         r' = updateParserResult
                ((last (x # ss'))\<lparr>errorChain := errorChain e',
                   lastMatchedToken := lastMatchedToken e',
                   lastMatchedTokenIndex := lastMatchedTokenIndex e'\<rparr>)
                (Arr (map result ss')))"
  proof
    assume "many p x = Some (Inr r')"
    then have ml: "many_loop p [] x x = Some (Inr r')"
      using assms by (simp add: many_def)
    have "\<not> isError r'"
      using many_loop_nonerror [OF ml] assms by blast
    moreover have "\<exists>ss' e'. steps_ok (replicate (length ss') p) x ss' \<and>
         p (last (x # ss')) = Some (Inr e') \<and> isError e' \<and>
         r' = updateParserResult
                ((last (x # ss'))\<lparr>errorChain := errorChain e',
                   lastMatchedToken := lastMatchedToken e',
                   lastMatchedTokenIndex := lastMatchedTokenIndex e'\<rparr>)
                (Arr (map result ss'))"
      using many_loop_returns_trace [OF ml] by simp
    ultimately show "\<not> isError r' \<and>
      (\<exists>ss' e'. steps_ok (replicate (length ss') p) x ss' \<and>
         p (last (x # ss')) = Some (Inr e') \<and> isError e' \<and>
         r' = updateParserResult
                ((last (x # ss'))\<lparr>errorChain := errorChain e',
                   lastMatchedToken := lastMatchedToken e',
                   lastMatchedTokenIndex := lastMatchedTokenIndex e'\<rparr>)
                (Arr (map result ss')))"
      by (rule conjI)
  qed
  have c4: "f 0 = x \<and> (\<forall>n. p (f n) = Some (Inr (f (Suc n))) \<and> \<not> isError (f (Suc n))) \<longrightarrow>
      many p x = None"
  proof
    assume a: "f 0 = x \<and> (\<forall>n. p (f n) = Some (Inr (f (Suc n))) \<and> \<not> isError (f (Suc n)))"
    then have "\<not> isError (f 0)" using assms by simp
    then have "many p (f 0) = None"
      using many_endless_successes [of f p] a by blast
    then show "many p x = None" using a by simp
  qed
  show ?thesis using c1 c2 c3 c4 by (intro conjI)
qed

theorem many_collects_until_first_failure_witness:
  "many (str ''a'') (initialState ''b'') =
     Some (Inr ((initialState ''b'')\<lparr>result := Arr [],
       errorChain := [''Tried to match a but got b'']\<rparr>))
   \<and> (\<exists>r. many (str ''a'') (initialState ''aab'') = Some (Inr r) \<and>
        r = (initialState ''aab'')\<lparr>index := 2, result := Arr [Str ''a'', Str ''a''],
              errorChain := [''Tried to match a but got b''],
              lastMatchedToken := Some ''a'', lastMatchedParserIndex := 2,
              lastMatchedTokenIndex := 2\<rparr> \<and>
        \<not> isError r \<and> index r = 2 \<and> lastMatchedParserIndex r = 2)
   \<and> (\<exists>ss' e'. steps_ok (replicate (length ss') (str ''a'')) (initialState ''aab'') ss' \<and>
        str ''a'' (last (initialState ''aab'' # ss')) = Some (Inr e') \<and> isError e' \<and>
        (initialState ''aab'')\<lparr>index := 2, result := Arr [Str ''a'', Str ''a''],
              errorChain := [''Tried to match a but got b''],
              lastMatchedToken := Some ''a'', lastMatchedParserIndex := 2,
              lastMatchedTokenIndex := 2\<rparr> =
          updateParserResult
            ((last (initialState ''aab'' # ss'))\<lparr>errorChain := errorChain e',
               lastMatchedToken := lastMatchedToken e',
               lastMatchedTokenIndex := lastMatchedTokenIndex e'\<rparr>)
            (Arr (map result ss')))
   \<and> many (succeed (Str ''v'')) ((initialState ''ab'')\<lparr>result := Str ''v''\<rparr>) = None"
proof -
  let ?x = "initialState ''b''"
  let ?e = "updateParserError ?x ''Tried to match a but got b''"
  let ?y = "initialState ''aab''"
  let ?s1 = "?y\<lparr>index := 1, result := Str ''a'', lastMatchedToken := Some ''a'',
                lastMatchedParserIndex := 1, lastMatchedTokenIndex := 1\<rparr>"
  let ?s2 = "?y\<lparr>index := 2, result := Str ''a'', lastMatchedToken := Some ''a'',
                lastMatchedParserIndex := 2, lastMatchedTokenIndex := 2\<rparr>"
  let ?e2 = "updateParserError ?s2 ''Tried to match a but got b''"
  let ?r = "?y\<lparr>index := 2, result := Arr [Str ''a'', Str ''a''],
              errorChain := [''Tried to match a but got b''],
              lastMatchedToken := Some ''a'', lastMatchedParserIndex := 2,
              lastMatchedTokenIndex := 2\<rparr>"
  let ?z = "(initialState ''ab'')\<lparr>result := Str ''v''\<rparr>"
  have hx: "\<not> isError ?x" and hy: "\<not> isError ?y" and hz: "\<not> isError ?z"
    by (simp_all add: initialState_def)
  have f: "str ''a'' ?x = Some (Inr ?e) \<and> isError ?e"
    by (simp add: str_def state_update_defs host_defs)
  have a: "many (str ''a'') ?x =
      Some (Inr (?x\<lparr>result := Arr [], errorChain := errorChain ?e,
        lastMatchedToken := lastMatchedToken ?e,
        lastMatchedTokenIndex := lastMatchedTokenIndex ?e\<rparr>))"
    by (rule many_collects_until_first_failure [OF hx, of "str ''a''" ?e,
          THEN conjunct1, THEN mp, OF f])
  have a': "many (str ''a'') ?x =
     Some (Inr (?x\<lparr>result := Arr [], errorChain := [''Tried to match a but got b'']\<rparr>))"
    using a by (simp add: state_update_defs host_defs)
  have g1: "str ''a'' ?y = Some (Inr ?s1)"
    by (simp add: str_def state_update_defs host_defs)
  have g2: "str ''a'' ?s1 = Some (Inr ?s2)"
    by (simp add: str_def state_update_defs host_defs)
  have g3: "str ''a'' ?s2 = Some (Inr ?e2)"
    by (simp add: str_def state_update_defs host_defs)
  have g: "steps_ok (replicate (length [?s1, ?s2]) (str ''a'')) ?y [?s1, ?s2] \<and>
      str ''a'' (last (?y # [?s1, ?s2])) = Some (Inr ?e2) \<and> isError ?e2"
    using g1 g2 g3 by (simp add: initialState_def updateParserError_def)
  have b: "\<exists>r. many (str ''a'') ?y = Some (Inr r) \<and>
      r = updateParserResult
            ((last (?y # [?s1, ?s2]))\<lparr>errorChain := errorChain ?e2,
               lastMatchedToken := lastMatchedToken ?e2,
               lastMatchedTokenIndex := lastMatchedTokenIndex ?e2\<rparr>)
            (Arr (map result [?s1, ?s2])) \<and>
      \<not> isError r \<and> index r = index (last (?y # [?s1, ?s2])) \<and>
      lastMatchedParserIndex r = lastMatchedParserIndex (last (?y # [?s1, ?s2]))"
    by (rule many_collects_until_first_failure [OF hy, of "str ''a''" _ "[?s1, ?s2]" ?e2,
          THEN conjunct2, THEN conjunct1, THEN mp, OF g])
  have req: "updateParserResult
            ((last (?y # [?s1, ?s2]))\<lparr>errorChain := errorChain ?e2,
               lastMatchedToken := lastMatchedToken ?e2,
               lastMatchedTokenIndex := lastMatchedTokenIndex ?e2\<rparr>)
            (Arr (map result [?s1, ?s2])) = ?r"
    by (simp add: state_update_defs initialState_def)
  have b': "\<exists>r. many (str ''a'') ?y = Some (Inr r) \<and> r = ?r \<and>
        \<not> isError r \<and> index r = 2 \<and> lastMatchedParserIndex r = 2"
    using b unfolding req by (simp add: initialState_def)
  have m: "many (str ''a'') ?y = Some (Inr ?r)"
    using b' by blast
  have c: "\<exists>ss' e'. steps_ok (replicate (length ss') (str ''a'')) ?y ss' \<and>
        str ''a'' (last (?y # ss')) = Some (Inr e') \<and> isError e' \<and>
        ?r = updateParserResult
            ((last (?y # ss'))\<lparr>errorChain := errorChain e',
               lastMatchedToken := lastMatchedToken e',
               lastMatchedTokenIndex := lastMatchedTokenIndex e'\<rparr>)
            (Arr (map result ss'))"
    using many_collects_until_first_failure [OF hy, of "str ''a''" _ _ _ ?r,
          THEN conjunct2, THEN conjunct2, THEN conjunct1, THEN mp, OF m]
    by (rule conjunct2)
  have h: "(\<lambda>n :: nat. ?z) 0 = ?z \<and>
      (\<forall>n. succeed (Str ''v'') ((\<lambda>n :: nat. ?z) n) = Some (Inr ((\<lambda>n :: nat. ?z) (Suc n))) \<and>
           \<not> isError ((\<lambda>n :: nat. ?z) (Suc n)))"
    by (simp add: succeed_def returns_def updateParserResult_def initialState_def)
  have d: "many (succeed (Str ''v'')) ?z = None"
    by (rule many_collects_until_first_failure [OF hz, of "succeed (Str ''v'')" _ _ _ _
          "\<lambda>n :: nat. ?z", THEN conjunct2, THEN conjunct2, THEN conjunct2, THEN mp, OF h])
  show ?thesis using a' b' c d by (intro conjI)
qed

theorem many_always_returns_counterexample:
  "many (succeed Null) (initialState ''ab'') = None
   \<and> sequenceOf [str ''a'', str ''b''] (initialState ''a'') =
     Some (Inr ((initialState ''a'')\<lparr>index := 1, result := Str ''a'', isError := True,
       error := Some ''Tried to match b but got unexpected input'',
       errorChain := [''Tried to match b but got unexpected input''],
       lastMatchedToken := Some ''a'', lastMatchedParserIndex := 1,
       lastMatchedTokenIndex := 1\<rparr>))
   \<and> many (sequenceOf [str ''a'', str ''b'']) (initialState ''a'') =
     Some (Inr ((initialState ''a'')\<lparr>result := Arr [],
       errorChain := [''Tried to match b but got unexpected input''],
       lastMatchedToken := Some ''a'', lastMatchedParserIndex := 0,
       lastMatchedTokenIndex := 1\<rparr>))"
proof (intro conjI)
  have "\<not> isError ((\<lambda>n :: nat. initialState ''ab'') 0)"
    by (simp add: initialState_def)
  moreover have "\<forall>n :: nat. succeed Null ((\<lambda>n. initialState ''ab'') n) =
        Some (Inr ((\<lambda>n. initialState ''ab'') (Suc n))) \<and>
      \<not> isError ((\<lambda>n. initialState ''ab'') (Suc n))"
    by (simp add: succeed_def returns_def updateParserResult_def initialState_def)
  ultimately have "many (succeed Null) ((\<lambda>n :: nat. initialState ''ab'') 0) = None"
    by (rule many_endless_successes)
  then show "many (succeed Null) (initialState ''ab'') = None" by simp
next
  show "sequenceOf [str ''a'', str ''b''] (initialState ''a'') =
     Some (Inr ((initialState ''a'')\<lparr>index := 1, result := Str ''a'', isError := True,
       error := Some ''Tried to match b but got unexpected input'',
       errorChain := [''Tried to match b but got unexpected input''],
       lastMatchedToken := Some ''a'', lastMatchedParserIndex := 1,
       lastMatchedTokenIndex := 1\<rparr>))"
    by (simp add: sequenceOf_def str_def state_update_defs host_defs)
next
  show "many (sequenceOf [str ''a'', str ''b'']) (initialState ''a'') =
     Some (Inr ((initialState ''a'')\<lparr>result := Arr [],
       errorChain := [''Tried to match b but got unexpected input''],
       lastMatchedToken := Some ''a'', lastMatchedParserIndex := 0,
       lastMatchedTokenIndex := 1\<rparr>))"
    by (simp add: many_def many_loop.simps sequenceOf_def str_def state_update_defs host_defs)
qed


section \<open>sepBy\<close>

lemma sepBy_loop_rounds:
  "rounds_ok sep v x rounds \<Longrightarrow>
     sepBy_loop sep v rs x =
       sepBy_loop sep v (rs @ map (\<lambda>(t, u). result t) rounds) (last (x # map snd rounds))"
proof (induction sep v x rounds arbitrary: rs rule: rounds_ok.induct)
  case (1 sep v x)
  show ?case by simp
next
  case (2 sep v x t u rounds)
  then have "sepBy_loop sep v rs x = sepBy_loop sep v (rs @ [result t]) u"
    by (subst sepBy_loop.simps) simp
  then show ?case using 2 by simp
qed

lemma rounds_ok_last_nonerror:
  "rounds_ok sep v x rounds \<Longrightarrow> \<not> isError x \<Longrightarrow> \<not> isError (last (x # map snd rounds))"
  by (induction sep v x rounds rule: rounds_ok.induct) auto

lemma sepBy_loop_nonerror:
  assumes "sepBy_loop sep v rs ns = Some y"
  shows "\<forall>r. y = Inr r \<longrightarrow> \<not> isError ns \<longrightarrow> \<not> isError r"
proof (rule sepBy_loop.raw_induct
    [where P = "\<lambda>sep v rs ns y. \<forall>r. y = Inr r \<longrightarrow> \<not> isError ns \<longrightarrow> \<not> isError r", OF _ assms],
    goal_cases)
  case (1 f sep v rs ns y)
  show ?case
  proof (intro allI impI)
    fix r
    assume y: "y = Inr r" and ne: "\<not> isError ns"
    from 1(2) y obtain t where t: "v ns = Some (Inr t)"
      by (auto simp: andThen_eq_Some)
    show "\<not> isError r"
    proof (cases "isError t")
      case True
      then show ?thesis using 1(2) y t ne
        by (auto simp: returns_def updateParserResult_def)
    next
      case False
      then obtain u where u: "sep t = Some (Inr u)"
        using 1(2) y t by (auto simp: andThen_eq_Some)
      show ?thesis
      proof (cases "isError u")
        case True
        then show ?thesis using 1(2) y t u False
          by (auto simp: returns_def updateParserResult_def)
      next
        case uok: False
        then have "f sep v (rs @ [result t]) u = Some y"
          using 1(2) t u False by simp
        then show ?thesis using 1(1) y uok by blast
      qed
    qed
  qed
qed

text \<open>
  Claim C5. On a state \<open>x\<close> that is not an error, a state that \<^verbatim>\<open>sepBy(sep)(v)\<close> returns
  is never an error state. After any number of rounds in which the value and then the
  separator succeed, the loop stops at the first failure: when the value parser fails,
  the result is the list of the values collected so far, in the state the last
  separator left (\<open>x\<close> itself when no round was completed, with the empty list); when the
  separator fails after a value, the result is the list with that value, in the state
  after that value. \<^verbatim>\<open>sepBy(str(","))(digits)\<close> on \<^verbatim>\<open>"1,2,3"\<close> returns the three digit
  strings at index 5, and on the empty input the empty list at index 0, neither an
  error.
\<close>

theorem sepBy_never_returns_error:
  assumes "\<not> isError x"
  shows "(sepBy sep v x = Some (Inr r) \<longrightarrow> \<not> isError r)
       \<and> (rounds_ok sep v x rounds \<and> v (last (x # map snd rounds)) = Some (Inr e) \<and> isError e \<longrightarrow>
            sepBy sep v x =
              Some (Inr (updateParserResult
                ((last (x # map snd rounds))\<lparr>errorChain := errorChain e,
                   lastMatchedToken := lastMatchedToken e,
                   lastMatchedTokenIndex := lastMatchedTokenIndex e\<rparr>)
                (Arr (map (\<lambda>(t, u). result t) rounds)))))
       \<and> (rounds_ok sep v x rounds \<and> v (last (x # map snd rounds)) = Some (Inr t) \<and>
          \<not> isError t \<and> sep t = Some (Inr u) \<and> isError u \<longrightarrow>
            sepBy sep v x =
              Some (Inr (updateParserResult t
                (Arr (map (\<lambda>(t, u). result t) rounds @ [result t])))))
       \<and> run (sepBy (str '','') digits) ''1,2,3'' =
            Some (Inr ((initialState ''1,2,3'')\<lparr>index := 5,
              result := Arr [Str ''1'', Str ''2'', Str ''3''],
              lastMatchedToken := Some ''3'', lastMatchedParserIndex := 5,
              lastMatchedTokenIndex := 5\<rparr>))
       \<and> run (sepBy (str '','') digits) [] =
            Some (Inr ((initialState [])\<lparr>result := Arr [],
              errorChain :=
                [''digits: Tried match /^[0-9]+/ got unexpected input at index 0'']\<rparr>))"
proof (intro conjI impI)
  assume "sepBy sep v x = Some (Inr r)"
  then have "sepBy_loop sep v [] x = Some (Inr r)"
    using assms by (simp add: sepBy_def)
  then show "\<not> isError r"
    using sepBy_loop_nonerror assms by blast
next
  assume a: "rounds_ok sep v x rounds \<and> v (last (x # map snd rounds)) = Some (Inr e) \<and> isError e"
  then have "sepBy_loop sep v [] x =
      sepBy_loop sep v ([] @ map (\<lambda>(t, u). result t) rounds) (last (x # map snd rounds))"
    using sepBy_loop_rounds by blast
  also have "\<dots> = Some (Inr (updateParserResult
                ((last (x # map snd rounds))\<lparr>errorChain := errorChain e,
                   lastMatchedToken := lastMatchedToken e,
                   lastMatchedTokenIndex := lastMatchedTokenIndex e\<rparr>)
                (Arr (map (\<lambda>(t, u). result t) rounds))))"
    using a by (subst sepBy_loop.simps) (simp add: returns_def)
  finally show "sepBy sep v x =
      Some (Inr (updateParserResult
        ((last (x # map snd rounds))\<lparr>errorChain := errorChain e,
           lastMatchedToken := lastMatchedToken e,
           lastMatchedTokenIndex := lastMatchedTokenIndex e\<rparr>)
        (Arr (map (\<lambda>(t, u). result t) rounds))))"
    using assms by (simp add: sepBy_def)
next
  assume a: "rounds_ok sep v x rounds \<and> v (last (x # map snd rounds)) = Some (Inr t) \<and>
      \<not> isError t \<and> sep t = Some (Inr u) \<and> isError u"
  then have "sepBy_loop sep v [] x =
      sepBy_loop sep v ([] @ map (\<lambda>(t, u). result t) rounds) (last (x # map snd rounds))"
    using sepBy_loop_rounds by blast
  also have "\<dots> = Some (Inr (updateParserResult t
                (Arr (map (\<lambda>(t, u). result t) rounds @ [result t]))))"
    using a by (subst sepBy_loop.simps) (simp add: returns_def)
  finally show "sepBy sep v x =
      Some (Inr (updateParserResult t (Arr (map (\<lambda>(t, u). result t) rounds @ [result t]))))"
    using assms by (simp add: sepBy_def)
next
  show "run (sepBy (str '','') digits) ''1,2,3'' =
      Some (Inr ((initialState ''1,2,3'')\<lparr>index := 5,
        result := Arr [Str ''1'', Str ''2'', Str ''3''],
        lastMatchedToken := Some ''3'', lastMatchedParserIndex := 5,
        lastMatchedTokenIndex := 5\<rparr>))"
    by (simp add: sepBy_def sepBy_loop.simps digits_def regexParserFactory_def str_def
        state_update_defs host_defs)
next
  show "run (sepBy (str '','') digits) [] =
      Some (Inr ((initialState [])\<lparr>result := Arr [],
        errorChain := [''digits: Tried match /^[0-9]+/ got unexpected input at index 0'']\<rparr>))"
    by (simp add: sepBy_def sepBy_loop.simps digits_def regexParserFactory_def str_def
        state_update_defs host_defs)
qed

theorem sepBy_never_returns_error_witness:
  "sepBy (str '','') digits (initialState ''1,2'') =
     Some (Inr ((initialState ''1,2'')\<lparr>index := 3, result := Arr [Str ''1'', Str ''2''],
       lastMatchedToken := Some ''2'', lastMatchedParserIndex := 3,
       lastMatchedTokenIndex := 3\<rparr>))
   \<and> \<not> isError ((initialState ''1,2'')\<lparr>index := 3, result := Arr [Str ''1'', Str ''2''],
       lastMatchedToken := Some ''2'', lastMatchedParserIndex := 3,
       lastMatchedTokenIndex := 3\<rparr>)
   \<and> sepBy (str '','') digits (initialState ''1,'') =
     Some (Inr ((initialState ''1,'')\<lparr>index := 2, result := Arr [Str ''1''],
       errorChain := [''digits: Tried match /^[0-9]+/ got unexpected input at index 2''],
       lastMatchedToken := Some ''1'', lastMatchedParserIndex := 1,
       lastMatchedTokenIndex := 1\<rparr>))"
proof -
  let ?x = "initialState ''1,2''"
  let ?t1 = "?x\<lparr>index := 1, result := Str ''1'', lastMatchedToken := Some ''1'',
    lastMatchedParserIndex := 1, lastMatchedTokenIndex := 1\<rparr>"
  let ?u1 = "?x\<lparr>index := 2, result := Str '','', lastMatchedToken := Some ''1'',
    lastMatchedParserIndex := 1, lastMatchedTokenIndex := 1\<rparr>"
  let ?t2 = "?x\<lparr>index := 3, result := Str ''2'', lastMatchedToken := Some ''2'',
    lastMatchedParserIndex := 3, lastMatchedTokenIndex := 3\<rparr>"
  let ?u2 = "updateParserError ?t2 ''Tried to match , but got unexpected input''"
  let ?r = "?x\<lparr>index := 3, result := Arr [Str ''1'', Str ''2''],
    lastMatchedToken := Some ''2'', lastMatchedParserIndex := 3, lastMatchedTokenIndex := 3\<rparr>"
  let ?y = "initialState ''1,''"
  let ?v1 = "?y\<lparr>index := 1, result := Str ''1'', lastMatchedToken := Some ''1'',
    lastMatchedParserIndex := 1, lastMatchedTokenIndex := 1\<rparr>"
  let ?w1 = "?y\<lparr>index := 2, result := Str '','', lastMatchedToken := Some ''1'',
    lastMatchedParserIndex := 1, lastMatchedTokenIndex := 1\<rparr>"
  let ?e = "updateParserError ?w1
    ''digits: Tried match /^[0-9]+/ got unexpected input at index 2''"
  have hx: "\<not> isError ?x" and hy: "\<not> isError ?y"
    by (simp_all add: initialState_def)
  have f: "rounds_ok (str '','') digits ?x [(?t1, ?u1)] \<and>
      digits (last (?x # map snd [(?t1, ?u1)])) = Some (Inr ?t2) \<and> \<not> isError ?t2 \<and>
      str '','' ?t2 = Some (Inr ?u2) \<and> isError ?u2"
    by (simp add: digits_def regexParserFactory_def str_def state_update_defs host_defs)
  have a: "sepBy (str '','') digits ?x =
      Some (Inr (updateParserResult ?t2
        (Arr (map (\<lambda>(t, u). result t) [(?t1, ?u1)] @ [result ?t2]))))"
    by (rule sepBy_never_returns_error [OF hx, of "str '',''" digits _ "[(?t1, ?u1)]" _ ?t2 ?u2,
          THEN conjunct2, THEN conjunct2, THEN conjunct1, THEN mp, OF f])
  have a': "sepBy (str '','') digits ?x = Some (Inr ?r)"
    using a by (simp add: state_update_defs host_defs)
  have b: "\<not> isError ?r"
    by (rule sepBy_never_returns_error [OF hx, of "str '',''" digits ?r,
          THEN conjunct1, THEN mp, OF a'])
  have g: "rounds_ok (str '','') digits ?y [(?v1, ?w1)] \<and>
      digits (last (?y # map snd [(?v1, ?w1)])) = Some (Inr ?e) \<and> isError ?e"
    by (simp add: digits_def regexParserFactory_def str_def state_update_defs host_defs)
  have c: "sepBy (str '','') digits ?y =
      Some (Inr (updateParserResult
        ((last (?y # map snd [(?v1, ?w1)]))\<lparr>errorChain := errorChain ?e,
           lastMatchedToken := lastMatchedToken ?e,
           lastMatchedTokenIndex := lastMatchedTokenIndex ?e\<rparr>)
        (Arr (map (\<lambda>(t, u). result t) [(?v1, ?w1)]))))"
    by (rule sepBy_never_returns_error [OF hy, of "str '',''" digits _ "[(?v1, ?w1)]" ?e,
          THEN conjunct2, THEN conjunct1, THEN mp, OF g])
  have c': "sepBy (str '','') digits ?y =
     Some (Inr (?y\<lparr>index := 2, result := Arr [Str ''1''],
       errorChain := [''digits: Tried match /^[0-9]+/ got unexpected input at index 2''],
       lastMatchedToken := Some ''1'', lastMatchedParserIndex := 1,
       lastMatchedTokenIndex := 1\<rparr>))"
    using c by (simp add: state_update_defs host_defs)
  show ?thesis using a' b c' by (intro conjI)
qed

section \<open>The index of the states a parser returns\<close>

lemma advancesI:
  assumes "\<And>s s'. in_bounds s \<Longrightarrow> p s = Some (Inr s') \<Longrightarrow>
    target s' = target s \<and> index s \<le> index s' \<and> in_bounds s'"
  shows "advances p"
  using assms unfolding advances_def by blast

lemma advancesD:
  assumes "advances p" and "in_bounds s" and "p s = Some (Inr s')"
  shows "target s' = target s" and "index s \<le> index s'" and "in_bounds s'"
  using assms unfolding advances_def by blast+

lemma length_slice_from:
  "in_bounds s \<Longrightarrow> int (length (slice_from (target s) (index s))) = int (length (target s)) - index s"
  by (auto simp: in_bounds_def slice_from_nonneg)

lemma js_match_length:
  "js_match rx subject = Some (at, m) \<Longrightarrow> length m \<le> length subject"
  by (auto simp: js_match_def split: option.splits)

lemma js_match_start:
  "rx_ok rx \<Longrightarrow> js_match rx subject = Some (at, m) \<Longrightarrow> at \<le> length subject"
  by (fastforce simp: js_match_def rx_ok_def split: option.splits)

lemma advances_regexParserFactory: "advances (regexParserFactory rx ty)"
proof (rule advancesI)
  fix s s'
  assume b: "in_bounds s" and r: "regexParserFactory rx ty s = Some (Inr s')"
  show "target s' = target s \<and> index s \<le> index s' \<and> in_bounds s'"
  proof (cases "isError s")
    case True
    then show ?thesis using b r by (simp add: regexParserFactory_def returns_def)
  next
    case False
    show ?thesis
    proof (cases "js_match rx (slice_from (target s) (index s))")
      case None
      then show ?thesis using b r False
        by (auto simp: regexParserFactory_def returns_def updateParserError_def in_bounds_def
            andThen_eq_Inr Let_def split: if_splits)
    next
      case (Some am)
      obtain at m where am: "am = (at, m)" by (cases am)
      have "int (length m) \<le> int (length (target s)) - index s"
        using js_match_length [of rx "slice_from (target s) (index s)" at m] Some am
          length_slice_from [OF b] by simp
      then show ?thesis using b r False Some am
        by (auto simp: regexParserFactory_def returns_def updateParserState_def in_bounds_def
            Let_def split: if_splits)
    qed
  qed
qed

lemma advances_str: "advances (str lit)"
proof (rule advancesI)
  fix s s'
  assume b: "in_bounds s" and r: "str lit s = Some (Inr s')"
  show "target s' = target s \<and> index s \<le> index s' \<and> in_bounds s'"
  proof (cases "\<not> isError s \<and> slice_from (target s) (index s) \<noteq> [] \<and>
      prefix lit (slice_from (target s) (index s))")
    case True
    then have "length lit \<le> length (slice_from (target s) (index s))"
      by (simp add: prefix_length_le)
    then have "int (length lit) \<le> int (length (target s)) - index s"
      using length_slice_from [OF b] by simp
    then show ?thesis using b r True
      by (auto simp: str_def returns_def updateParserState_def in_bounds_def Let_def
          split: if_splits)
  next
    case False
    then show ?thesis using b r
      by (auto simp: str_def returns_def updateParserError_def in_bounds_def andThen_eq_Inr
          Let_def split: if_splits)
  qed
qed

lemma advances_eat:
  assumes "rx_ok rx" and ng: "\<not> rx_global rx"
  shows "advances (eat rx)"
proof (rule advancesI)
  fix s s'
  assume b: "in_bounds s" and r: "eat rx s = Some (Inr s')"
  show "target s' = target s \<and> index s \<le> index s' \<and> in_bounds s'"
  proof (cases "isError s")
    case True
    then show ?thesis using b r by (simp add: eat_def returns_def)
  next
    case False
    show ?thesis
    proof (cases "js_match rx (slice_from (target s) (index s))")
      case None
      then show ?thesis using b r False
        by (auto simp: eat_def returns_def updateParserState_def in_bounds_def Let_def)
    next
      case (Some am)
      obtain at m where am: "am = (at, m)" by (cases am)
      have "int at \<le> int (length (target s)) - index s"
        using js_match_start [OF assms(1), of "slice_from (target s) (index s)" at m] Some am
          length_slice_from [OF b] by simp
      then show ?thesis using b r False Some am ng
        by (auto simp: eat_def returns_def updateParserState_def in_bounds_def Let_def)
    qed
  qed
qed

lemma advances_peek: "advances peek"
  by (rule advancesI) (auto simp: peek_def returns_def updateParserResult_def in_bounds_def)

lemma advances_getCurState: "advances getCurState"
  by (rule advancesI) (auto simp: getCurState_def returns_def)

lemma advances_succeed: "advances (succeed v)"
  by (rule advancesI)
    (auto simp: succeed_def returns_def updateParserResult_def in_bounds_def split: if_splits)

lemma advances_map_parser: "advances p \<Longrightarrow> advances (map_parser p fn)"
  by (rule advancesI)
    (auto simp: map_parser_def andThen_eq_Inr returns_def updateParserResult_def in_bounds_def
      split: if_splits dest: advancesD)

lemma advances_errorMap: "advances p \<Longrightarrow> advances (errorMap p fn)"
  by (rule advancesI)
    (auto simp: errorMap_def andThen_eq_Inr returns_def updateParserError_def in_bounds_def
      split: if_splits dest: advancesD)

lemma advances_chain:
  assumes "advances p" and "\<And>s. advances (fn s)"
  shows "advances (chain p fn)"
proof (rule advancesI)
  fix s s'
  assume b: "in_bounds s" and r: "chain p fn s = Some (Inr s')"
  then obtain s1 where s1: "p s = Some (Inr s1)"
    and rest: "(if isError s1 then returns s1 else fn s1 s1) = Some (Inr s')"
    by (auto simp: chain_def andThen_eq_Inr)
  note a = advancesD [OF assms(1) b s1]
  show "target s' = target s \<and> index s \<le> index s' \<and> in_bounds s'"
  proof (cases "isError s1")
    case True
    then show ?thesis using rest a by (simp add: returns_def)
  next
    case False
    then have "fn s1 s1 = Some (Inr s')" using rest by simp
    then show ?thesis using advancesD [OF assms(2) a(3)] a by fastforce
  qed
qed

lemma advances_lazy: "advances (thunk ()) \<Longrightarrow> advances (lazy thunk)"
  by (rule advancesI) (auto simp: lazy_def dest: advancesD)

lemma sequenceOf_loop_advances:
  "\<forall>p \<in> set ps. advances p \<Longrightarrow> in_bounds s \<Longrightarrow>
     sequenceOf_loop ps s rs = Some (Inr (s', rs')) \<Longrightarrow>
     target s' = target s \<and> index s \<le> index s' \<and> in_bounds s'"
proof (induction ps arbitrary: s rs)
  case Nil
  then show ?case by (simp add: returns_def)
next
  case (Cons p ps)
  from Cons.prems(3) obtain s1 where s1: "p s = Some (Inr s1)"
    and l: "sequenceOf_loop ps s1 (rs @ [result s1]) = Some (Inr (s', rs'))"
    by (auto simp: andThen_eq_Inr)
  have "advances p" using Cons.prems(1) by simp
  note a = advancesD [OF this Cons.prems(2) s1]
  have "target s' = target s1 \<and> index s1 \<le> index s' \<and> in_bounds s'"
    using Cons.IH [OF _ a(3) l] Cons.prems(1) by simp
  then show ?case using a by simp
qed

lemma advances_sequenceOf:
  assumes "\<forall>p \<in> set ps. advances p"
  shows "advances (sequenceOf ps)"
proof (rule advancesI)
  fix s s'
  assume b: "in_bounds s" and r: "sequenceOf ps s = Some (Inr s')"
  show "target s' = target s \<and> index s \<le> index s' \<and> in_bounds s'"
  proof (cases "isError s")
    case True
    then show ?thesis using b r by (simp add: sequenceOf_def returns_def)
  next
    case False
    then obtain s1 rs1 where l: "sequenceOf_loop ps s [] = Some (Inr (s1, rs1))"
      and rest: "(if isError s1 then returns s1 else returns (updateParserResult s1 (Arr rs1))) =
        Some (Inr s')"
      using r by (auto simp: sequenceOf_def andThen_eq_Inr)
    have "target s1 = target s \<and> index s \<le> index s1 \<and> in_bounds s1"
      using sequenceOf_loop_advances [OF assms b l] .
    then show ?thesis using rest
      by (auto simp: returns_def updateParserResult_def in_bounds_def split: if_splits)
  qed
qed

lemma choice_loop_advances:
  "\<forall>p \<in> set ps. advances p \<Longrightarrow> in_bounds x \<Longrightarrow>
     choice_loop ps x tok idx pre = Some (Inr s') \<Longrightarrow>
     target s' = target x \<and> index x \<le> index s' \<and> in_bounds s'"
proof (induction ps arbitrary: tok idx pre)
  case Nil
  then show ?case by (auto simp: returns_def updateParserError_def in_bounds_def)
next
  case (Cons p ps)
  from Cons.prems(3) obtain s1 where s1: "p x = Some (Inr s1)"
    by (auto simp: andThen_eq_Inr)
  have "advances p" using Cons.prems(1) by simp
  note a = advancesD [OF this Cons.prems(2) s1]
  show ?case
  proof (cases "isError s1")
    case False
    then show ?thesis using Cons.prems(3) s1 a by (simp add: returns_def)
  next
    case True
    then obtain tok' idx' pre' where "choice_loop ps x tok' idx' pre' = Some (Inr s')"
      using Cons.prems(3) s1 by (auto split: if_splits)
    then show ?thesis using Cons.IH Cons.prems(1,2) by simp
  qed
qed

lemma advances_choice:
  assumes "\<forall>p \<in> set ps. advances p"
  shows "advances (choice ps)"
proof (rule advancesI)
  fix s s'
  assume b: "in_bounds s" and r: "choice ps s = Some (Inr s')"
  show "target s' = target s \<and> index s \<le> index s' \<and> in_bounds s'"
  proof (cases "isError s")
    case True
    then show ?thesis using b r by (simp add: choice_def returns_def)
  next
    case False
    then show ?thesis using choice_loop_advances [OF assms b] r by (simp add: choice_def)
  qed
qed

lemma many_loop_advances:
  assumes "many_loop p rs ns ls = Some y"
  shows "advances p \<longrightarrow> ls = ns \<longrightarrow> in_bounds ns \<longrightarrow>
     (\<forall>r. y = Inr r \<longrightarrow> target r = target ns \<and> index ns \<le> index r \<and> in_bounds r)"
proof (rule many_loop.raw_induct
    [where P = "\<lambda>p rs ns ls y. advances p \<longrightarrow> ls = ns \<longrightarrow> in_bounds ns \<longrightarrow>
       (\<forall>r. y = Inr r \<longrightarrow> target r = target ns \<and> index ns \<le> index r \<and> in_bounds r)", OF _ assms],
    goal_cases)
  case (1 f p rs ns ls y)
  show ?case
  proof (intro allI impI)
    fix r
    assume adv: "advances p" and eq: "ls = ns" and b: "in_bounds ns" and y: "y = Inr r"
    from 1(2) y obtain n' where n': "p ns = Some (Inr n')"
      by (auto simp: andThen_eq_Some)
    note a = advancesD [OF adv b n']
    show "target r = target ns \<and> index ns \<le> index r \<and> in_bounds r"
    proof (cases "isError n'")
      case True
      then show ?thesis using 1(2) y n' eq b
        by (auto simp: returns_def updateParserResult_def in_bounds_def)
    next
      case False
      then have "f p (rs @ [result n']) n' n' = Some y"
        using 1(2) n' by simp
      then have "target r = target n' \<and> index n' \<le> index r \<and> in_bounds r"
        using 1(1) adv a(3) y by blast
      then show ?thesis using a by simp
    qed
  qed
qed

lemma advances_many:
  assumes "advances p"
  shows "advances (many p)"
proof (rule advancesI)
  fix s s'
  assume b: "in_bounds s" and r: "many p s = Some (Inr s')"
  show "target s' = target s \<and> index s \<le> index s' \<and> in_bounds s'"
  proof (cases "isError s")
    case True
    then show ?thesis using b r by (simp add: many_def returns_def)
  next
    case False
    then have "many_loop p [] s s = Some (Inr s')" using r by (simp add: many_def)
    then show ?thesis using many_loop_advances assms b by blast
  qed
qed

lemma manyOne_loop_advances:
  assumes "manyOne_loop p x rs ns = Some y"
  shows "advances p \<longrightarrow> in_bounds x \<longrightarrow> in_bounds ns \<longrightarrow> target ns = target x \<longrightarrow>
     index x \<le> index ns \<longrightarrow>
     (\<forall>r. y = Inr r \<longrightarrow> target r = target x \<and> index x \<le> index r \<and> in_bounds r)"
proof (rule manyOne_loop.raw_induct
    [where P = "\<lambda>p x rs ns y. advances p \<longrightarrow> in_bounds x \<longrightarrow> in_bounds ns \<longrightarrow>
       target ns = target x \<longrightarrow> index x \<le> index ns \<longrightarrow>
       (\<forall>r. y = Inr r \<longrightarrow> target r = target x \<and> index x \<le> index r \<and> in_bounds r)", OF _ assms],
    goal_cases)
  case (1 f p x rs ns y)
  show ?case
  proof (intro allI impI)
    fix r
    assume adv: "advances p" and bx: "in_bounds x" and b: "in_bounds ns"
      and tx: "target ns = target x" and ix: "index x \<le> index ns" and y: "y = Inr r"
    from 1(2) y obtain n' where n': "p ns = Some (Inr n')"
      by (auto simp: andThen_eq_Some)
    note a = advancesD [OF adv b n']
    show "target r = target x \<and> index x \<le> index r \<and> in_bounds r"
    proof (cases "isError n'")
      case True
      then show ?thesis using 1(2) y n' b bx tx ix
        by (auto simp: returns_def updateParserResult_def updateParserError_def in_bounds_def
            split: if_splits)
    next
      case False
      then have "f p x (rs @ [result n']) n' = Some y"
        using 1(2) n' by simp
      moreover have "target n' = target x" "index x \<le> index n'"
        using a tx ix by simp_all
      ultimately show ?thesis using 1(1) adv bx a(3) y by blast
    qed
  qed
qed

lemma advances_manyOne:
  assumes "advances p"
  shows "advances (manyOne p)"
proof (rule advancesI)
  fix s s'
  assume b: "in_bounds s" and r: "manyOne p s = Some (Inr s')"
  show "target s' = target s \<and> index s \<le> index s' \<and> in_bounds s'"
  proof (cases "isError s")
    case True
    then show ?thesis using b r by (simp add: manyOne_def returns_def)
  next
    case False
    then have "manyOne_loop p s [] s = Some (Inr s')" using r by (simp add: manyOne_def)
    then show ?thesis using manyOne_loop_advances [of p s "[]" s "Inr s'"] assms b by simp
  qed
qed

lemma sepBy_loop_advances:
  assumes "sepBy_loop sep v rs ns = Some y"
  shows "advances sep \<longrightarrow> advances v \<longrightarrow> in_bounds ns \<longrightarrow>
     (\<forall>r. y = Inr r \<longrightarrow> target r = target ns \<and> index ns \<le> index r \<and> in_bounds r)"
proof (rule sepBy_loop.raw_induct
    [where P = "\<lambda>sep v rs ns y. advances sep \<longrightarrow> advances v \<longrightarrow> in_bounds ns \<longrightarrow>
       (\<forall>r. y = Inr r \<longrightarrow> target r = target ns \<and> index ns \<le> index r \<and> in_bounds r)", OF _ assms],
    goal_cases)
  case (1 f sep v rs ns y)
  show ?case
  proof (intro allI impI)
    fix r
    assume as: "advances sep" and av: "advances v" and b: "in_bounds ns" and y: "y = Inr r"
    from 1(2) y obtain t where t: "v ns = Some (Inr t)"
      by (auto simp: andThen_eq_Some)
    note a = advancesD [OF av b t]
    show "target r = target ns \<and> index ns \<le> index r \<and> in_bounds r"
    proof (cases "isError t")
      case True
      then show ?thesis using 1(2) y t b
        by (auto simp: returns_def updateParserResult_def in_bounds_def)
    next
      case False
      then obtain u where u: "sep t = Some (Inr u)"
        using 1(2) y t by (auto simp: andThen_eq_Some)
      note c = advancesD [OF as a(3) u]
      show ?thesis
      proof (cases "isError u")
        case True
        then show ?thesis using 1(2) y t u False a
          by (auto simp: returns_def updateParserResult_def in_bounds_def)
      next
        case uok: False
        then have "f sep v (rs @ [result t]) u = Some y"
          using 1(2) t u False by simp
        then have "target r = target u \<and> index u \<le> index r \<and> in_bounds r"
          using 1(1) as av c(3) y by blast
        then show ?thesis using a c by simp
      qed
    qed
  qed
qed

lemma advances_sepBy:
  assumes "advances sep" and "advances v"
  shows "advances (sepBy sep v)"
proof (rule advancesI)
  fix s s'
  assume b: "in_bounds s" and r: "sepBy sep v s = Some (Inr s')"
  show "target s' = target s \<and> index s \<le> index s' \<and> in_bounds s'"
  proof (cases "isError s")
    case True
    then show ?thesis using b r by (simp add: sepBy_def returns_def)
  next
    case False
    then have "sepBy_loop sep v [] s = Some (Inr s')" using r by (simp add: sepBy_def)
    then show ?thesis using sepBy_loop_advances assms b by blast
  qed
qed

lemma sepByOne_loop_advances:
  assumes "sepByOne_loop sep v x rs ns = Some y"
  shows "advances sep \<longrightarrow> advances v \<longrightarrow> in_bounds x \<longrightarrow> in_bounds ns \<longrightarrow>
     target ns = target x \<longrightarrow> index x \<le> index ns \<longrightarrow>
     (\<forall>r. y = Inr r \<longrightarrow> target r = target x \<and> index x \<le> index r \<and> in_bounds r)"
proof (rule sepByOne_loop.raw_induct
    [where P = "\<lambda>sep v x rs ns y. advances sep \<longrightarrow> advances v \<longrightarrow> in_bounds x \<longrightarrow>
       in_bounds ns \<longrightarrow> target ns = target x \<longrightarrow> index x \<le> index ns \<longrightarrow>
       (\<forall>r. y = Inr r \<longrightarrow> target r = target x \<and> index x \<le> index r \<and> in_bounds r)", OF _ assms],
    goal_cases)
  case (1 f sep v x rs ns y)
  show ?case
  proof (intro allI impI)
    fix r
    assume as: "advances sep" and av: "advances v" and bx: "in_bounds x" and b: "in_bounds ns"
      and tx: "target ns = target x" and ix: "index x \<le> index ns" and y: "y = Inr r"
    from 1(2) y obtain t where t: "v ns = Some (Inr t)"
      by (auto simp: andThen_eq_Some)
    note a = advancesD [OF av b t]
    show "target r = target x \<and> index x \<le> index r \<and> in_bounds r"
    proof (cases "isError t")
      case True
      then show ?thesis using 1(2) y t b bx tx ix
        by (auto simp: returns_def updateParserResult_def updateParserError_def in_bounds_def
            split: if_splits)
    next
      case False
      then obtain u where u: "sep t = Some (Inr u)"
        using 1(2) y t by (auto simp: andThen_eq_Some)
      note c = advancesD [OF as a(3) u]
      show ?thesis
      proof (cases "isError u")
        case True
        then show ?thesis using 1(2) y t u False a tx ix
          by (auto simp: returns_def updateParserResult_def in_bounds_def)
      next
        case uok: False
        then have "f sep v x (rs @ [result t]) u = Some y"
          using 1(2) t u False by simp
        moreover have "target u = target x" "index x \<le> index u"
          using a c tx ix by simp_all
        ultimately show ?thesis using 1(1) as av bx c(3) y by blast
      qed
    qed
  qed
qed

lemma advances_sepByOne:
  assumes "advances sep" and "advances v"
  shows "advances (sepByOne sep v)"
proof (rule advancesI)
  fix s s'
  assume b: "in_bounds s" and r: "sepByOne sep v s = Some (Inr s')"
  show "target s' = target s \<and> index s \<le> index s' \<and> in_bounds s'"
  proof (cases "isError s")
    case True
    then show ?thesis using b r by (simp add: sepByOne_def returns_def)
  next
    case False
    then have "sepByOne_loop sep v s [] s = Some (Inr s')" using r by (simp add: sepByOne_def)
    then show ?thesis
      using sepByOne_loop_advances [of sep v s "[]" s "Inr s'"] assms b by simp
  qed
qed

lemma sequenceSepBy_loop_advances:
  "advances sep \<Longrightarrow> \<forall>p \<in> set parsers. advances p \<Longrightarrow> in_bounds s \<Longrightarrow>
     sequenceSepBy_loop sep parsers count s rs = Some (Inr (c', s', rs')) \<Longrightarrow>
     target s' = target s \<and> index s \<le> index s' \<and> in_bounds s'"
proof (induction sep parsers count s rs rule: sequenceSepBy_loop.induct)
  case (1 sep parsers count s rs)
  show ?case
  proof (cases "int count < int (length parsers) - 1")
    case True
    then have "count < length parsers" by simp
    then have ap: "advances (parsers ! count)" using "1.prems"(2) by simp
    from "1.prems"(4) True obtain t u where t: "(parsers ! count) s = Some (Inr t)"
      and u: "sep t = Some (Inr u)"
      and l: "sequenceSepBy_loop sep parsers (count + 1) u (rs @ [result t]) =
        Some (Inr (c', s', rs'))"
      by (subst (asm) sequenceSepBy_loop.simps) (auto simp: andThen_eq_Inr)
    note a = advancesD [OF ap "1.prems"(3) t]
    note c = advancesD [OF "1.prems"(1) a(3) u]
    have "target s' = target u \<and> index u \<le> index s' \<and> in_bounds s'"
      using "1.IH" [OF True "1.prems"(1,2) c(3) l] .
    then show ?thesis using a c by simp
  next
    case False
    then show ?thesis using "1.prems"(3,4)
      by (subst (asm) sequenceSepBy_loop.simps) (simp add: returns_def)
  qed
qed

lemma advances_sequenceSepBy:
  assumes "advances sep" and "\<forall>p \<in> set parsers. advances p"
  shows "advances (sequenceSepBy sep parsers)"
proof (rule advancesI)
  fix s s'
  assume b: "in_bounds s" and r: "sequenceSepBy sep parsers s = Some (Inr s')"
  show "target s' = target s \<and> index s \<le> index s' \<and> in_bounds s'"
  proof (cases "isError s")
    case True
    then show ?thesis using b r by (simp add: sequenceSepBy_def returns_def)
  next
    case False
    then obtain c s1 rs1 where l: "sequenceSepBy_loop sep parsers 0 s [] = Some (Inr (c, s1, rs1))"
      and rest: "(if c < length parsers then
          andThen ((parsers ! c) s1) (\<lambda>lastState.
            if isError lastState then returns lastState
            else returns (updateParserResult lastState (Arr (rs1 @ [result lastState]))))
        else Some (Inl TypeError)) = Some (Inr s')"
      using r by (auto simp: sequenceSepBy_def andThen_eq_Inr)
    note a = sequenceSepBy_loop_advances [OF assms b l]
    have lt: "c < length parsers" using rest by (auto split: if_splits)
    then have ap: "advances (parsers ! c)" using assms(2) by simp
    from rest lt obtain s2 where s2: "(parsers ! c) s1 = Some (Inr s2)"
      and fin: "(if isError s2 then returns s2
        else returns (updateParserResult s2 (Arr (rs1 @ [result s2])))) = Some (Inr s')"
      by (auto simp: andThen_eq_Inr)
    have "in_bounds s1" using a by simp
    note d = advancesD [OF ap this s2]
    show ?thesis using fin a d
      by (auto simp: returns_def updateParserResult_def in_bounds_def split: if_splits)
  qed
qed

lemma advances_between:
  assumes "advances l" and "advances r" and "advances c"
  shows "advances (between l r c)"
  unfolding between_def
  by (rule advances_map_parser, rule advances_sequenceOf) (simp add: assms)

lemma advances_oneOrZero: "advances p \<Longrightarrow> advances (oneOrZero p)"
  unfolding oneOrZero_def by (rule advances_choice) (simp add: advances_succeed)

lemma public_advances: "public p \<Longrightarrow> advances p"
proof (induction rule: public.induct)
  case (pub_regex rx ty)
  show ?case by (rule advances_regexParserFactory)
next
  case (pub_str lit)
  show ?case by (rule advances_str)
next
  case (pub_eat rx)
  then show ?case by (rule advances_eat)
next
  case pub_peek
  show ?case by (rule advances_peek)
next
  case pub_getCurState
  show ?case by (rule advances_getCurState)
next
  case (pub_succeed v)
  show ?case by (rule advances_succeed)
next
  case (pub_map p fn)
  then show ?case by (simp add: advances_map_parser)
next
  case (pub_errorMap p efn)
  then show ?case by (simp add: advances_errorMap)
next
  case (pub_chain p cfn)
  then show ?case by (simp add: advances_chain)
next
  case (pub_sequenceOf ps)
  then show ?case by (simp add: advances_sequenceOf)
next
  case (pub_choice ps)
  then show ?case by (simp add: advances_choice)
next
  case (pub_many p)
  then show ?case by (simp add: advances_many)
next
  case (pub_manyOne p)
  then show ?case by (simp add: advances_manyOne)
next
  case (pub_between l r c)
  then show ?case by (simp add: advances_between)
next
  case (pub_sepBy sep p)
  then show ?case by (simp add: advances_sepBy)
next
  case (pub_sepByOne sep p)
  then show ?case by (simp add: advances_sepByOne)
next
  case (pub_lazy thunk)
  then show ?case by (simp add: advances_lazy)
next
  case (pub_oneOrZero p)
  then show ?case by (simp add: advances_oneOrZero)
next
  case (pub_sequenceSepBy sep ps)
  then show ?case by (simp add: advances_sequenceSepBy)
qed

lemma gen_public_advances: "gen_public g \<Longrightarrow> advances (runStep g)"
proof (induction rule: gen_public.induct)
  case (gen_return v)
  show ?case by (simp add: advances_succeed)
next
  case (gen_yield p resume)
  then show ?case by (simp add: advances_chain public_advances)
qed

lemma contextual_advances: "gen_public g \<Longrightarrow> advances (contextual g)"
  unfolding contextual_def
  by (rule advances_chain) (simp_all add: advances_succeed gen_public_advances)

lemma regexParserFactory_failure_index:
  "regexParserFactory rx ty x = Some (Inr e) \<Longrightarrow> isError e \<Longrightarrow> index e = index x"
  by (auto simp: regexParserFactory_def returns_def updateParserError_def updateParserState_def
      andThen_eq_Inr Let_def split: if_splits option.splits)

lemma str_failure_index:
  "str lit x = Some (Inr e) \<Longrightarrow> isError e \<Longrightarrow> index e = index x"
  by (auto simp: str_def returns_def updateParserError_def updateParserState_def
      andThen_eq_Inr Let_def split: if_splits)

lemma choice_loop_failure_index:
  "choice_loop ps x tok idx pre = Some (Inr e) \<Longrightarrow> isError e \<Longrightarrow> index e = index x"
proof (induction ps arbitrary: tok idx pre)
  case Nil
  then show ?case by (auto simp: returns_def updateParserError_def)
next
  case (Cons p ps)
  from Cons.prems(1) obtain s1 where s1: "p x = Some (Inr s1)"
    by (auto simp: andThen_eq_Inr)
  show ?case
  proof (cases "isError s1")
    case False
    then show ?thesis using Cons.prems s1 by (simp add: returns_def)
  next
    case True
    then obtain tok' idx' pre' where "choice_loop ps x tok' idx' pre' = Some (Inr e)"
      using Cons.prems(1) s1 by (auto split: if_splits)
    then show ?thesis using Cons.IH Cons.prems(2) by simp
  qed
qed

lemma choice_failure_index:
  "choice ps x = Some (Inr e) \<Longrightarrow> isError e \<Longrightarrow> index e = index x"
  using choice_loop_failure_index
  by (cases "isError x") (auto simp: choice_def returns_def)

lemma manyOne_loop_failure_index:
  assumes "manyOne_loop p x rs ns = Some y"
  shows "\<not> isError ns \<longrightarrow> (\<forall>e. y = Inr e \<longrightarrow> isError e \<longrightarrow> index e = index x)"
proof (rule manyOne_loop.raw_induct
    [where P = "\<lambda>p x rs ns y. \<not> isError ns \<longrightarrow>
       (\<forall>e. y = Inr e \<longrightarrow> isError e \<longrightarrow> index e = index x)", OF _ assms], goal_cases)
  case (1 f p x rs ns y)
  show ?case
  proof (intro allI impI)
    fix e
    assume ne: "\<not> isError ns" and y: "y = Inr e" and err: "isError e"
    from 1(2) y obtain n' where n': "p ns = Some (Inr n')"
      by (auto simp: andThen_eq_Some)
    show "index e = index x"
    proof (cases "isError n'")
      case True
      then show ?thesis using 1(2) y n' ne err
        by (auto simp: returns_def updateParserResult_def updateParserError_def
            split: if_splits)
    next
      case False
      then have "f p x (rs @ [result n']) n' = Some y"
        using 1(2) n' by simp
      then show ?thesis using 1(1) False y err by blast
    qed
  qed
qed

lemma manyOne_failure_index:
  "manyOne p x = Some (Inr e) \<Longrightarrow> isError e \<Longrightarrow> index e = index x"
  using manyOne_loop_failure_index [of p x "[]" x "Inr e"]
  by (cases "isError x") (auto simp: manyOne_def returns_def)

lemma sepByOne_loop_failure_index:
  assumes "sepByOne_loop sep v x rs ns = Some y"
  shows "\<not> isError ns \<longrightarrow> (\<forall>e. y = Inr e \<longrightarrow> isError e \<longrightarrow> index e = index x)"
proof (rule sepByOne_loop.raw_induct
    [where P = "\<lambda>sep v x rs ns y. \<not> isError ns \<longrightarrow>
       (\<forall>e. y = Inr e \<longrightarrow> isError e \<longrightarrow> index e = index x)", OF _ assms], goal_cases)
  case (1 f sep v x rs ns y)
  show ?case
  proof (intro allI impI)
    fix e
    assume ne: "\<not> isError ns" and y: "y = Inr e" and err: "isError e"
    from 1(2) y obtain t where t: "v ns = Some (Inr t)"
      by (auto simp: andThen_eq_Some)
    show "index e = index x"
    proof (cases "isError t")
      case True
      then show ?thesis using 1(2) y t ne err
        by (auto simp: returns_def updateParserResult_def updateParserError_def
            split: if_splits)
    next
      case False
      then obtain u where u: "sep t = Some (Inr u)"
        using 1(2) y t by (auto simp: andThen_eq_Some)
      show ?thesis
      proof (cases "isError u")
        case True
        then show ?thesis using 1(2) y t u False err
          by (auto simp: returns_def updateParserResult_def)
      next
        case uok: False
        then have "f sep v x (rs @ [result t]) u = Some y"
          using 1(2) t u False by simp
        then show ?thesis using 1(1) uok y err by blast
      qed
    qed
  qed
qed

lemma sepByOne_failure_index:
  "sepByOne sep v x = Some (Inr e) \<Longrightarrow> isError e \<Longrightarrow> index e = index x"
  using sepByOne_loop_failure_index [of sep v x "[]" x "Inr e"]
  by (cases "isError x") (auto simp: sepByOne_def returns_def)

lemma takeWhile_stops:
  "c \<in> set xs \<Longrightarrow> Suc (length (takeWhile (\<lambda>d. d \<noteq> c) xs)) \<le> length xs"
  by (induction xs) auto

lemma rx_char_ok: "rx_ok (rx_char txt c)"
  by (auto simp: rx_ok_def rx_char_def takeWhile_stops split: if_splits)

lemma chain_first_fails:
  "p x = Some (Inr e) \<Longrightarrow> isError e \<Longrightarrow> chain p cfn x = Some (Inr e)"
  by (simp add: chain_def returns_def)

lemma chain_second_fails:
  "p x = Some (Inr s1) \<Longrightarrow> \<not> isError s1 \<Longrightarrow> cfn s1 s1 = Some (Inr e) \<Longrightarrow>
     chain p cfn x = Some (Inr e)"
  by (simp add: chain_def)

lemma sequenceOf_first_error:
  assumes "\<not> isError x" and ok: "steps_ok ps x ss"
    and f: "p (last (x # ss)) = Some (Inr e)" and e: "isError e"
    and pe: "list_all passes_errors qs"
  shows "sequenceOf (ps @ p # qs) x = Some (Inr e)"
proof -
  have "sequenceOf_loop (p # qs) (last (x # ss)) (map result ss) =
      Some (Inr (e, (map result ss @ [result e]) @ replicate (length qs) (result e)))"
    using f sequenceOf_loop_error [OF e pe, of "map result ss @ [result e]"] by simp
  then have "sequenceOf_loop (ps @ p # qs) x [] =
      Some (Inr (e, (map result ss @ [result e]) @ replicate (length qs) (result e)))"
    using sequenceOf_loop_steps_ok [OF ok, of "[]"]
    by (simp add: sequenceOf_loop_append)
  then show ?thesis
    using assms(1) e by (simp add: sequenceOf_def returns_def)
qed

text \<open>
  Claim C8, as the code has it. The initial state of \<^verbatim>\<open>run\<close> has its index in bounds.
  From a state whose index is in bounds, every state returned by a parser built from
  the public set without \<^verbatim>\<open>setCurState\<close> and without a global pattern for \<^verbatim>\<open>eat\<close>,
  success or failure, has the same target and an index that is in bounds and is not
  below the index it started from; so does every state returned by \<^verbatim>\<open>contextual\<close> on a
  generator that yields such parsers. An error state returned by a pattern matcher, by
  \<^verbatim>\<open>str\<close>, by \<^verbatim>\<open>choice\<close>, by \<^verbatim>\<open>manyOne\<close> or by \<^verbatim>\<open>sepByOne\<close> has the index of the state
  the parser was applied to. A failing \<^verbatim>\<open>chain\<close> returns the error state of the component
  that failed: the one of its first parser, or the one of the parser that the callback
  chose, run from where the first parser stopped. A failing \<^verbatim>\<open>sequenceOf\<close> whose later
  parsers hand error states back unchanged returns the error state of its first failing
  parser. In both, the index is the one the failing component left.
\<close>

theorem index_in_bounds_and_never_decreases:
  "in_bounds (initialState t)
   \<and> (public p \<and> in_bounds s \<and> p s = Some (Inr s') \<longrightarrow>
        target s' = target s \<and> index s \<le> index s' \<and> in_bounds s')
   \<and> (gen_public g \<and> in_bounds s \<and> contextual g s = Some (Inr s') \<longrightarrow>
        target s' = target s \<and> index s \<le> index s' \<and> in_bounds s')
   \<and> (isError e \<and>
        (regexParserFactory rx ty x = Some (Inr e) \<or> str lit x = Some (Inr e) \<or>
         choice ps x = Some (Inr e) \<or> manyOne q x = Some (Inr e) \<or>
         sepByOne sp q x = Some (Inr e)) \<longrightarrow>
        index e = index x)
   \<and> (p1 y = Some (Inr e1) \<and> isError e1 \<longrightarrow> chain p1 cfn y = Some (Inr e1))
   \<and> (p1 y = Some (Inr y1) \<and> \<not> isError y1 \<and> cfn y1 y1 = Some (Inr e2) \<longrightarrow>
        chain p1 cfn y = Some (Inr e2))
   \<and> (\<not> isError z \<and> steps_ok ps1 z zs \<and> p2 (last (z # zs)) = Some (Inr e3) \<and> isError e3 \<and>
        list_all passes_errors ps2 \<longrightarrow>
        sequenceOf (ps1 @ p2 # ps2) z = Some (Inr e3))"
proof -
  have c1: "in_bounds (initialState t)"
    by (simp add: in_bounds_def initialState_def)
  have c2: "public p \<and> in_bounds s \<and> p s = Some (Inr s') \<longrightarrow>
        target s' = target s \<and> index s \<le> index s' \<and> in_bounds s'"
    using public_advances advancesD by blast
  have c3: "gen_public g \<and> in_bounds s \<and> contextual g s = Some (Inr s') \<longrightarrow>
        target s' = target s \<and> index s \<le> index s' \<and> in_bounds s'"
    using contextual_advances advancesD by blast
  have c4: "isError e \<and>
        (regexParserFactory rx ty x = Some (Inr e) \<or> str lit x = Some (Inr e) \<or>
         choice ps x = Some (Inr e) \<or> manyOne q x = Some (Inr e) \<or>
         sepByOne sp q x = Some (Inr e)) \<longrightarrow>
        index e = index x"
    using regexParserFactory_failure_index str_failure_index choice_failure_index
      manyOne_failure_index sepByOne_failure_index
    by blast
  have c5: "p1 y = Some (Inr e1) \<and> isError e1 \<longrightarrow> chain p1 cfn y = Some (Inr e1)"
    using chain_first_fails by blast
  have c6: "p1 y = Some (Inr y1) \<and> \<not> isError y1 \<and> cfn y1 y1 = Some (Inr e2) \<longrightarrow>
        chain p1 cfn y = Some (Inr e2)"
    using chain_second_fails by blast
  have c7: "\<not> isError z \<and> steps_ok ps1 z zs \<and> p2 (last (z # zs)) = Some (Inr e3) \<and>
        isError e3 \<and> list_all passes_errors ps2 \<longrightarrow>
        sequenceOf (ps1 @ p2 # ps2) z = Some (Inr e3)"
    using sequenceOf_first_error by blast
  show ?thesis using c1 c2 c3 c4 c5 c6 c7 by (intro conjI)
qed

theorem index_in_bounds_and_never_decreases_witness:
  "sequenceOf [str ''a'', many (str ''b'')] (initialState ''abb'') =
     Some (Inr ((initialState ''abb'')\<lparr>index := 3,
       result := Arr [Str ''a'', Arr [Str ''b'', Str ''b'']],
       errorChain := [''Tried to match b but got unexpected input''],
       lastMatchedToken := Some ''b'', lastMatchedParserIndex := 3,
       lastMatchedTokenIndex := 3\<rparr>))
   \<and> index (initialState ''abb'') \<le> 3
   \<and> in_bounds ((initialState ''abb'')\<lparr>index := 3,
       result := Arr [Str ''a'', Arr [Str ''b'', Str ''b'']],
       errorChain := [''Tried to match b but got unexpected input''],
       lastMatchedToken := Some ''b'', lastMatchedParserIndex := 3,
       lastMatchedTokenIndex := 3\<rparr>)
   \<and> contextual (GYield (str ''a'') (\<lambda>s1. GYield (str ''b'') (\<lambda>s2. GReturn (result s1))))
       (initialState ''abb'') =
     Some (Inr ((initialState ''abb'')\<lparr>index := 2, result := Str ''a'',
       lastMatchedToken := Some ''b'', lastMatchedParserIndex := 2,
       lastMatchedTokenIndex := 2\<rparr>))
   \<and> str ''a'' (initialState ''b'') =
     Some (Inr (updateParserError (initialState ''b'') ''Tried to match a but got b''))
   \<and> index (updateParserError (initialState ''b'') ''Tried to match a but got b'') =
     index (initialState ''b'')
   \<and> eat (rx_char ''/b/'' CHR ''b'') (initialState ''abb'') =
     Some (Inr ((initialState ''abb'')\<lparr>index := 1, result := Str ''a'',
       lastMatchedToken := Some ''a'', lastMatchedParserIndex := 1,
       lastMatchedTokenIndex := 1\<rparr>))
   \<and> chain (str ''a'') (always (str ''b'')) (initialState ''b'') =
     Some (Inr (updateParserError (initialState ''b'') ''Tried to match a but got b''))
   \<and> chain (str ''a'') (always (str ''b'')) (initialState ''ac'') =
     Some (Inr ((initialState ''ac'')\<lparr>index := 1, result := Str ''a'', isError := True,
       error := Some ''Tried to match b but got c'',
       errorChain := [''Tried to match b but got c''],
       lastMatchedToken := Some ''a'', lastMatchedParserIndex := 1,
       lastMatchedTokenIndex := 1\<rparr>))
   \<and> sequenceOf [str ''a'', str ''b'', str ''c''] (initialState ''ax'') =
     Some (Inr ((initialState ''ax'')\<lparr>index := 1, result := Str ''a'', isError := True,
       error := Some ''Tried to match b but got x'',
       errorChain := [''Tried to match b but got x''],
       lastMatchedToken := Some ''a'', lastMatchedParserIndex := 1,
       lastMatchedTokenIndex := 1\<rparr>))"
proof -
  let ?x = "initialState ''abb''"
  let ?p = "sequenceOf [str ''a'', many (str ''b'')]"
  let ?r = "?x\<lparr>index := 3, result := Arr [Str ''a'', Arr [Str ''b'', Str ''b'']],
       errorChain := [''Tried to match b but got unexpected input''],
       lastMatchedToken := Some ''b'', lastMatchedParserIndex := 3,
       lastMatchedTokenIndex := 3\<rparr>"
  let ?g = "GYield (str ''a'') (\<lambda>s1. GYield (str ''b'') (\<lambda>s2. GReturn (result s1)))"
  let ?c = "?x\<lparr>index := 2, result := Str ''a'', lastMatchedToken := Some ''b'',
       lastMatchedParserIndex := 2, lastMatchedTokenIndex := 2\<rparr>"
  let ?y = "initialState ''b''"
  let ?e = "updateParserError ?y ''Tried to match a but got b''"
  let ?rx = "rx_char ''/b/'' CHR ''b''"
  let ?t = "?x\<lparr>index := 1, result := Str ''a'', lastMatchedToken := Some ''a'',
       lastMatchedParserIndex := 1, lastMatchedTokenIndex := 1\<rparr>"
  let ?z = "initialState ''ac''"
  let ?z1 = "?z\<lparr>index := 1, result := Str ''a'', lastMatchedToken := Some ''a'',
       lastMatchedParserIndex := 1, lastMatchedTokenIndex := 1\<rparr>"
  let ?e2 = "?z\<lparr>index := 1, result := Str ''a'', isError := True,
       error := Some ''Tried to match b but got c'',
       errorChain := [''Tried to match b but got c''],
       lastMatchedToken := Some ''a'', lastMatchedParserIndex := 1,
       lastMatchedTokenIndex := 1\<rparr>"
  let ?w = "initialState ''ax''"
  let ?w1 = "?w\<lparr>index := 1, result := Str ''a'', lastMatchedToken := Some ''a'',
       lastMatchedParserIndex := 1, lastMatchedTokenIndex := 1\<rparr>"
  let ?e3 = "?w\<lparr>index := 1, result := Str ''a'', isError := True,
       error := Some ''Tried to match b but got x'',
       errorChain := [''Tried to match b but got x''],
       lastMatchedToken := Some ''a'', lastMatchedParserIndex := 1,
       lastMatchedTokenIndex := 1\<rparr>"
  have pub: "public ?p"
    by (intro pub_sequenceOf pub_many pub_str ballI) (auto intro: pub_many pub_str)
  have b: "in_bounds ?x"
    by (simp add: in_bounds_def initialState_def)
  have ev: "?p ?x = Some (Inr ?r)"
    by (simp add: sequenceOf_def many_def many_loop.simps str_def state_update_defs host_defs)
  have a: "target ?r = target ?x \<and> index ?x \<le> index ?r \<and> in_bounds ?r"
    by (rule index_in_bounds_and_never_decreases [where p = ?p and s = ?x and s' = ?r,
          THEN conjunct2, THEN conjunct1, THEN mp, OF conjI [OF pub conjI [OF b ev]]])
  have gp: "gen_public ?g"
    by (intro gen_yield gen_return pub_str)
  have ec: "contextual ?g ?x = Some (Inr ?c)"
    by (simp add: contextual_def chain_def succeed_def str_def state_update_defs host_defs)
  have c: "target ?c = target ?x \<and> index ?x \<le> index ?c \<and> in_bounds ?c"
    by (rule index_in_bounds_and_never_decreases [where g = ?g and s = ?x and s' = ?c,
          THEN conjunct2, THEN conjunct2, THEN conjunct1, THEN mp,
          OF conjI [OF gp conjI [OF b ec]]])
  have f: "str ''a'' ?y = Some (Inr ?e) \<and> isError ?e"
    by (simp add: str_def state_update_defs host_defs)
  have d: "index ?e = index ?y"
    by (rule index_in_bounds_and_never_decreases [where e = ?e and x = ?y and lit = "''a''",
          THEN conjunct2, THEN conjunct2, THEN conjunct2, THEN conjunct1, THEN mp,
          OF conjI [OF f [THEN conjunct2] disjI2 [OF disjI1 [OF f [THEN conjunct1]]]]])
  have pe: "public (eat ?rx)"
    by (rule pub_eat [OF rx_char_ok]) (simp add: rx_char_def)
  have ee: "eat ?rx ?x = Some (Inr ?t)"
    by (simp add: eat_def rx_char_def state_update_defs host_defs)
  have h: "public (eat ?rx) \<and> in_bounds ?x \<and> eat ?rx ?x = Some (Inr ?t)"
    using pe b ee by (intro conjI)
  have i: "target ?t = target ?x \<and> index ?x \<le> index ?t \<and> in_bounds ?t"
    by (rule index_in_bounds_and_never_decreases [of _ "eat ?rx" ?x ?t,
          THEN conjunct2, THEN conjunct1, THEN mp, OF h])
  have j: "chain (str ''a'') (always (str ''b'')) ?y = Some (Inr ?e)"
    by (rule index_in_bounds_and_never_decreases [where ?p1.0 = "str ''a''" and y = ?y
          and ?e1.0 = ?e, THEN conjunct2, THEN conjunct2, THEN conjunct2, THEN conjunct2,
          THEN conjunct1, THEN mp, OF f])
  have k0: "str ''a'' ?z = Some (Inr ?z1) \<and> \<not> isError ?z1 \<and>
      always (str ''b'') ?z1 ?z1 = Some (Inr ?e2)"
    by (simp add: always_def str_def state_update_defs host_defs)
  have k: "chain (str ''a'') (always (str ''b'')) ?z = Some (Inr ?e2)"
    by (rule index_in_bounds_and_never_decreases [where ?p1.0 = "str ''a''" and y = ?z
          and ?y1.0 = ?z1 and ?e2.0 = ?e2 and cfn = "always (str ''b'')",
          THEN conjunct2, THEN conjunct2, THEN conjunct2, THEN conjunct2,
          THEN conjunct2, THEN conjunct1, THEN mp, OF k0])
  have l0: "\<not> isError ?w \<and> steps_ok [str ''a''] ?w [?w1] \<and>
      str ''b'' (last (?w # [?w1])) = Some (Inr ?e3) \<and> isError ?e3 \<and>
      list_all passes_errors [str ''c'']"
    by (simp add: passes_errors_def str_def state_update_defs host_defs)
  have l: "sequenceOf ([str ''a''] @ str ''b'' # [str ''c'']) ?w = Some (Inr ?e3)"
    by (rule index_in_bounds_and_never_decreases [where z = ?w and ?ps1.0 = "[str ''a'']"
          and zs = "[?w1]" and ?p2.0 = "str ''b''" and ?e3.0 = ?e3 and ?ps2.0 = "[str ''c'']",
          THEN conjunct2, THEN conjunct2, THEN conjunct2, THEN conjunct2,
          THEN conjunct2, THEN conjunct2, THEN mp, OF l0])
  have l': "sequenceOf [str ''a'', str ''b'', str ''c''] ?w = Some (Inr ?e3)"
    using l by simp
  have m: "in_bounds ?r" using a by simp
  have n: "index ?x \<le> 3" using a by simp
  show ?thesis using ev n m ec f d ee j k l' by (intro conjI) simp_all
qed

theorem index_invariant_counterexample:
  "str ''a'' (initialState ''a'') =
     Some (Inr ((initialState ''a'')\<lparr>index := 1, result := Str ''a'',
       lastMatchedToken := Some ''a'', lastMatchedParserIndex := 1,
       lastMatchedTokenIndex := 1\<rparr>))
   \<and> setCurState (initialState ''a'')
       ((initialState ''a'')\<lparr>index := 1, result := Str ''a'',
         lastMatchedToken := Some ''a'', lastMatchedParserIndex := 1,
         lastMatchedTokenIndex := 1\<rparr>) = Some (Inr (initialState ''a''))
   \<and> \<not> isError (initialState ''a'')
   \<and> index (initialState ''a'') < 1
   \<and> run (chain (str ''a'') (always (setCurState ((initialState ''a'')\<lparr>index := - 1\<rparr>)))) ''a'' =
       Some (Inr ((initialState ''a'')\<lparr>index := - 1\<rparr>))
   \<and> run (chain (str ''a'') (always (str ''b''))) ''ac'' =
       Some (Inr ((initialState ''ac'')\<lparr>index := 1, result := Str ''a'', isError := True,
         error := Some ''Tried to match b but got c'',
         errorChain := [''Tried to match b but got c''],
         lastMatchedToken := Some ''a'', lastMatchedParserIndex := 1,
         lastMatchedTokenIndex := 1\<rparr>))
   \<and> index (initialState ''ac'') \<noteq> 1
   \<and> run (eat ((rx_char ''/b/g'' CHR ''b'')\<lparr>rx_global := True\<rparr>)) ''ab'' =
       Some (Inl NaNIndex)"
  by (simp add: run_def eat_def rx_char_def chain_def always_def str_def setCurState_def
      state_update_defs host_defs)

end
